theory Spec2Isabelle
  imports Main
begin

section \<open>Values, envelopes and errors\<close>

text \<open>
  JavaScript values as far as the adapter looks at them: the transport options are a
  \<open>Record<string, unknown>\<close> whose entries are only tested for truthiness, and the
  payload of an envelope is an opaque object. Numbers are represented by integers.
\<close>

datatype js_value =
    JUndefined
  | JNull
  | JBool bool
  | JNum int
  | JStr string
  | JArr "js_value list"
  | JObj "(string \<times> js_value) list"

text \<open>The truthiness test behind \<open>!v\<close> and \<open>if (v)\<close>.\<close>

fun truthy :: "js_value \<Rightarrow> bool" where
  "truthy JUndefined = False"
| "truthy JNull = False"
| "truthy (JBool b) = b"
| "truthy (JNum n) = (n \<noteq> 0)"
| "truthy (JStr s) = (s \<noteq> [])"
| "truthy (JArr xs) = True"
| "truthy (JObj kvs) = True"

text \<open>\<open>CorrelatedRequestDTO\<close>: \<open>request_id\<close> is optional, \<open>None\<close> is the absent field.\<close>

record request_dto =
  action :: string
  correlation_id :: string
  request_id :: "string option"
  transport :: string
  data :: js_value

text \<open>
  \<open>CorrelatedResponseDTO\<close>: the fields the adapter reads (\<open>request_id\<close> in
  \<open>sendResponse\<close>) and writes (the object literal at the end of
  \<open>executeActionHandler\<close>).
\<close>

record response_dto =
  res_action :: string
  res_correlation_id :: string
  res_request_id :: "string option"
  res_data :: js_value
  res_error :: string
  res_status :: int

text \<open>
  Values that can be thrown or used to reject a promise. \<open>ZodError\<close> carries the
  messages of its \<open>errors\<close> in order, \<open>BaseError\<close> its \<open>code\<close> and \<open>message\<close>,
  \<open>Error\<close> (any other instance of the built-in class) its \<open>message\<close>; \<open>NonError\<close> is
  a thrown value that is no instance of \<open>Error\<close>.
\<close>

datatype thrown =
    ZodError "string list"
  | BaseError int string
  | Error string
  | NonError js_value

text \<open>The \<open>instanceof\<close> tests: \<open>ZodError\<close> and \<open>BaseError\<close> are subclasses of \<open>Error\<close>.\<close>

fun instanceof_ZodError :: "thrown \<Rightarrow> bool" where
  "instanceof_ZodError (ZodError ms) = True"
| "instanceof_ZodError e = False"

fun instanceof_BaseError :: "thrown \<Rightarrow> bool" where
  "instanceof_BaseError (BaseError c m) = True"
| "instanceof_BaseError e = False"

fun instanceof_Error :: "thrown \<Rightarrow> bool" where
  "instanceof_Error (NonError v) = False"
| "instanceof_Error e = True"

fun errors :: "thrown \<Rightarrow> string list" where
  "errors (ZodError ms) = ms"
| "errors e = []"

fun code :: "thrown \<Rightarrow> int" where
  "code (BaseError c m) = c"
| "code e = 0"

fun message :: "thrown \<Rightarrow> string" where
  "message (BaseError c m) = m"
| "message (Error m) = m"
| "message e = []"

text \<open>
  Modelled from the spec: \<open>BadRequestError\<close> and \<open>InternalServerError\<close> come from
  \<open>rest-pkg\<close>, which is not part of the sources. The spec calls the first a client
  error written as wire status 400 and the second a server error (5xx); both are
  recognised by the \<open>instanceof BaseError\<close> test of \<open>handleHTTPRequest\<close>, so they are
  \<open>BaseError\<close>s with the codes 400 and 500.
\<close>

definition BadRequestError :: "string \<Rightarrow> thrown" where
  "BadRequestError m = BaseError 400 m"

definition InternalServerError :: "string \<Rightarrow> thrown" where
  "InternalServerError m = BaseError 500 m"

text \<open>\<open>Array.prototype.join\<close> with a separator.\<close>

fun join_sep :: "string \<Rightarrow> string list \<Rightarrow> string" where
  "join_sep sep [] = []"
| "join_sep sep [x] = x"
| "join_sep sep (x # y # ys) = x @ sep @ join_sep sep (y # ys)"

section \<open>Collaborators\<close>

text \<open>
  \<open>transportService.getReceivableActions()\<close> returns an object from action names to
  handlers, a \<open>Record<string, ...>\<close>: a plain object, whose prototype is
  \<open>Object.prototype\<close>. It is taken as the list of its own properties; a property whose
  value is \<open>undefined\<close> or \<open>null\<close> holds \<open>None\<close>. The handlers the transport service
  registered are opaque and named by a number: what a handler does shows up as events
  of the adapter (see \<open>event\<close>). The adapter can also come to call the value of a
  property of \<open>Object.prototype\<close> as a handler, \<open>Inherited\<close> with the name of the
  property.
\<close>

datatype handler = Registered nat | Inherited string

type_synonym receivable_actions = "(string \<times> handler option) list"

text \<open>\<open>Object.keys\<close>: the names of the own properties.\<close>

definition Object_keys :: "receivable_actions \<Rightarrow> string list" where
  "Object_keys acts = remdups (map fst acts)"

text \<open>
  The names of the properties of \<open>Object.prototype\<close>, which every plain object
  inherits. Their values are functions, and for \<open>__proto__\<close> the prototype object
  itself: all truthy.
\<close>

definition Object_prototype_keys :: "string list" where
  "Object_prototype_keys =
     [''constructor'', ''__defineGetter__'', ''__defineSetter__'', ''hasOwnProperty'',
      ''__lookupGetter__'', ''__lookupSetter__'', ''isPrototypeOf'',
      ''propertyIsEnumerable'', ''toString'', ''valueOf'', ''__proto__'',
      ''toLocaleString'']"

text \<open>
  The \<open>in\<close> operator and the property read \<open>actionsToConsume[name]\<close>: both look at the
  own properties first and then along the prototype chain.
\<close>

definition has_property :: "string \<Rightarrow> receivable_actions \<Rightarrow> bool" where
  "has_property name acts =
     (name \<in> set (map fst acts) \<or> name \<in> set Object_prototype_keys)"

definition get_property :: "receivable_actions \<Rightarrow> string \<Rightarrow> handler option" where
  "get_property acts name =
     (case map_of acts name of
        Some slot \<Rightarrow> slot
      | None \<Rightarrow> if name \<in> set Object_prototype_keys then Some (Inherited name) else None)"

type_synonym options = "string \<rightharpoonup> js_value"

definition option_value :: "options \<Rightarrow> string \<Rightarrow> js_value" where
  "option_value opts k = (case opts k of None \<Rightarrow> JUndefined | Some v \<Rightarrow> v)"

section \<open>Initialisation\<close>

text \<open>
  What the server answers to \<open>listen\<close>: the \<open>listening\<close> callback, or an \<open>error\<close>
  event (the port is in use, or may not be bound) with its error.
\<close>

datatype listen_outcome = Listening | ListenError thrown

text \<open>
  The \<open>RangeError\<close> that \<open>listen\<close> throws for a port outside 0..65535, an \<open>Error\<close> that
  is no \<open>BaseError\<close>. It is thrown inside the executor of the promise \<open>init\<close> awaits and
  so rejects it.
\<close>

definition ERR_SOCKET_BAD_PORT :: thrown where
  "ERR_SOCKET_BAD_PORT = Error ''ERR_SOCKET_BAD_PORT''"

text \<open>
  The outcome of \<open>init\<close>: whether \<open>this.server\<close> holds a server afterwards, the port
  that server listens on, and the error \<open>init\<close> rejects with. The adapter is
  constructed with \<open>server = null\<close> and the port defaults to 0.
\<close>

record init_result =
  server_created :: bool
  bound_port :: "int option"
  thrown_error :: "thrown option"

definition init :: "receivable_actions \<Rightarrow> int \<Rightarrow> listen_outcome \<Rightarrow> init_result" where
  "init actionsToConsume port outcome =
     (if length (Object_keys actionsToConsume) = 0 then
        \<lparr>server_created = False, bound_port = None, thrown_error = None\<rparr>
      else if port = 0 then
        \<lparr>server_created = False, bound_port = None,
         thrown_error =
           Some (InternalServerError
                   ''HTTP transport needs a port in order to consume (receive) actions'')\<rparr>
      else if port < 0 \<or> 65535 < port then
        \<lparr>server_created = True, bound_port = None, thrown_error = Some ERR_SOCKET_BAD_PORT\<rparr>
      else
        (case outcome of
           Listening \<Rightarrow>
             \<lparr>server_created = True, bound_port = Some port, thrown_error = None\<rparr>
         | ListenError err \<Rightarrow>
             \<lparr>server_created = True, bound_port = None, thrown_error = Some err\<rparr>))"

section \<open>Outbound sender\<close>

text \<open>
  The call \<open>sendHTTPRequest(data, options, timeout)\<close> that \<open>send\<close> ends with; its
  outcome is decided by the network and is not modelled further.
\<close>

record http_call =
  call_hostname :: js_value
  call_port :: js_value
  call_path :: string
  call_method :: string
  call_body :: request_dto
  call_timeout :: "nat option"

definition HTTP_TRANSPORT_ENDPOINT :: string where
  "HTTP_TRANSPORT_ENDPOINT = ''/http-transport''"

definition sendHTTPRequest :: "request_dto \<Rightarrow> options \<Rightarrow> nat option \<Rightarrow> http_call" where
  "sendHTTPRequest d opts timeout =
     \<lparr>call_hostname = option_value opts ''host'',
      call_port = option_value opts ''port'',
      call_path = HTTP_TRANSPORT_ENDPOINT,
      call_method = ''POST'',
      call_body = d,
      call_timeout = timeout\<rparr>"

text \<open>\<open>!data.request_id\<close> is false exactly for a present, non-empty string.\<close>

definition has_request_id :: "string option \<Rightarrow> bool" where
  "has_request_id r = (case r of None \<Rightarrow> False | Some i \<Rightarrow> i \<noteq> [])"

text \<open>
  \<open>send\<close>: \<open>actionsToProduce\<close> is the answer of \<open>transportService.getSendableActions()\<close>
  and \<open>uuid\<close> the string \<open>uuidv4()\<close> returns when it is called. The envelope is mutated
  in place, so the result holds the caller's envelope as it is afterwards, next to the
  error thrown or the wire call made.
\<close>

definition send ::
  "string list \<Rightarrow> string \<Rightarrow> request_dto \<Rightarrow> options \<Rightarrow> nat option
     \<Rightarrow> request_dto \<times> (thrown + http_call)" where
  "send actionsToProduce uuid d opts timeout =
     (let d1 = (if \<not> has_request_id (request_id d) then d\<lparr>request_id := Some uuid\<rparr> else d)
      in if action d1 \<notin> set actionsToProduce then
           (d1, Inl (BadRequestError (''Invalid action provided: '' @ action d1)))
         else if \<not> truthy (option_value opts ''host'') \<or> \<not> truthy (option_value opts ''port'') then
           (d1, Inl (BadRequestError ''Host and/or port missing in transport options''))
         else (d1, Inr (sendHTTPRequest d1 opts timeout)))"

section \<open>Request dispatcher and correlation registry\<close>

text \<open>What is written on a connection: the status of \<open>writeHead\<close> and the body of \<open>end\<close>.\<close>

datatype body = ErrorBody string | EnvelopeBody response_dto

type_synonym wire_response = "int \<times> body"

text \<open>
  One run of \<open>executeActionHandler\<close>. The promise it awaits is settled at most once (a
  later \<open>resolve\<close> or \<open>reject\<close> of a settled promise does nothing); the timer is the one
  started by \<open>setTimeout\<close>, with the time it is due. \<open>ex_resolver_calls\<close> counts the
  calls of the callback stored in \<open>pendingResponses\<close>.
\<close>

datatype timer_state = Armed | Cancelled | Fired

datatype promise_state = Pending | Resolved response_dto | Rejected thrown

record exchange =
  ex_data :: request_dto
  ex_handler :: handler
  ex_deadline :: nat
  ex_timer :: timer_state
  ex_promise :: promise_state
  ex_handler_running :: bool
  ex_resolver_calls :: nat

text \<open>
  The adapter and its connections. A connection (the \<open>ServerResponse\<close> object \<open>res\<close>)
  is named by a number, and the exchange of a dispatched request has the number of its
  connection. The callback stored under a request id closes over the timer and the
  promise of one exchange, so \<open>pendingResponses\<close> maps a request id to that exchange.
\<close>

record adapter_state =
  pendingResponses :: "string \<rightharpoonup> nat"
  exchanges :: "nat \<rightharpoonup> exchange"
  wire :: "nat \<Rightarrow> wire_response list"
  next_conn :: nat
  now :: nat

definition initial_state :: adapter_state where
  "initial_state =
     \<lparr>pendingResponses = Map.empty, exchanges = Map.empty, wire = (\<lambda>c. []),
      next_conn = 0, now = 0\<rparr>"

definition write_response :: "nat \<Rightarrow> wire_response \<Rightarrow> adapter_state \<Rightarrow> adapter_state" where
  "write_response res w s = s\<lparr>wire := (wire s)(res := wire s res @ [w])\<rparr>"

text \<open>
  The \<open>catch\<close> block of \<open>executeActionHandler\<close>: from the starting values
  \<open>status = 200\<close> and \<open>errorMessage = ''\<close>.
\<close>

definition classify :: "thrown \<Rightarrow> int \<times> string" where
  "classify error =
     (if instanceof_ZodError error then (400, join_sep '', '' (errors error))
      else if instanceof_BaseError error then (code error, message error)
      else if instanceof_Error error then (200, message error)
      else (500, ''Internal Server Error''))"

text \<open>
  The \<open>finally\<close> block: what \<open>executeActionHandler\<close> writes once its promise is
  settled. An injected envelope is an object, hence truthy, and is written as it is.
\<close>

fun finish :: "request_dto \<Rightarrow> promise_state \<Rightarrow> wire_response option" where
  "finish d Pending = None"
| "finish d (Resolved response) = Some (200, EnvelopeBody response)"
| "finish d (Rejected error) =
     Some (200, EnvelopeBody
       \<lparr>res_action = action d,
        res_correlation_id = correlation_id d,
        res_request_id = None,
        res_data = JObj [],
        res_error = snd (classify error),
        res_status = fst (classify error)\<rparr>)"

text \<open>
  Settling the promise of exchange \<open>x\<close>: only a pending promise changes, and the code
  after the \<open>await\<close> then writes the response.
\<close>

definition settle :: "nat \<Rightarrow> promise_state \<Rightarrow> adapter_state \<Rightarrow> adapter_state" where
  "settle x outcome s =
     (case exchanges s x of
        None \<Rightarrow> s
      | Some ex \<Rightarrow>
          if ex_promise ex = Pending then
            (case finish (ex_data ex) outcome of
               None \<Rightarrow> s
             | Some w \<Rightarrow>
                 write_response x w
                   (s\<lparr>exchanges := (exchanges s)(x \<mapsto> ex\<lparr>ex_promise := outcome\<rparr>)\<rparr>))
          else s)"

definition resolve :: "nat \<Rightarrow> response_dto \<Rightarrow> adapter_state \<Rightarrow> adapter_state" where
  "resolve x msg = settle x (Resolved msg)"

definition reject :: "nat \<Rightarrow> thrown \<Rightarrow> adapter_state \<Rightarrow> adapter_state" where
  "reject x err = settle x (Rejected err)"

definition clearTimeout :: "nat \<Rightarrow> adapter_state \<Rightarrow> adapter_state" where
  "clearTimeout x s =
     (case exchanges s x of
        None \<Rightarrow> s
      | Some ex \<Rightarrow>
          if ex_timer ex = Armed
          then s\<lparr>exchanges := (exchanges s)(x \<mapsto> ex\<lparr>ex_timer := Cancelled\<rparr>)\<rparr>
          else s)"

text \<open>The callback \<open>(msg) => { clearTimeout(timer); resolve(msg); }\<close> of exchange \<open>x\<close>.\<close>

definition count_call :: "nat \<Rightarrow> adapter_state \<Rightarrow> adapter_state" where
  "count_call x s =
     (case exchanges s x of
        None \<Rightarrow> s
      | Some ex \<Rightarrow>
          s\<lparr>exchanges := (exchanges s)(x \<mapsto> ex\<lparr>ex_resolver_calls := Suc (ex_resolver_calls ex)\<rparr>)\<rparr>)"

definition resolver :: "nat \<Rightarrow> response_dto \<Rightarrow> adapter_state \<Rightarrow> adapter_state" where
  "resolver x msg s = resolve x msg (clearTimeout x (count_call x s))"

text \<open>\<open>sendResponse\<close>, the response injector.\<close>

definition sendResponse :: "response_dto \<Rightarrow> adapter_state \<Rightarrow> adapter_state" where
  "sendResponse d s =
     (case res_request_id d of
        None \<Rightarrow> s
      | Some rid \<Rightarrow>
          if rid \<noteq> [] \<and> pendingResponses s rid \<noteq> None then
            (case pendingResponses s rid of
               None \<Rightarrow> s
             | Some x \<Rightarrow>
                 (let s1 = resolver x d s
                  in s1\<lparr>pendingResponses := (pendingResponses s1)(rid := None)\<rparr>))
          else s)"

text \<open>
  \<open>executeActionHandler\<close> up to its \<open>await handler(data)\<close>: the timer is started, the
  callback registered and the handler invoked.
\<close>

definition executeActionHandler ::
  "handler \<Rightarrow> request_dto \<Rightarrow> nat \<Rightarrow> adapter_state \<Rightarrow> adapter_state" where
  "executeActionHandler h d res s =
     (let ex = \<lparr>ex_data = d, ex_handler = h, ex_deadline = now s + 30000,
                ex_timer = Armed, ex_promise = Pending, ex_handler_running = True,
                ex_resolver_calls = 0\<rparr>;
          s1 = s\<lparr>exchanges := (exchanges s)(res \<mapsto> ex)\<rparr>
      in case request_id d of
           None \<Rightarrow> s1
         | Some rid \<Rightarrow>
             if rid \<noteq> [] then s1\<lparr>pendingResponses := (pendingResponses s1)(rid \<mapsto> res)\<rparr>
             else s1)"

text \<open>The timer's callback, when the timer fires.\<close>

definition timer_fired :: "nat \<Rightarrow> adapter_state \<Rightarrow> adapter_state" where
  "timer_fired x s =
     (case exchanges s x of
        None \<Rightarrow> s
      | Some ex \<Rightarrow>
          reject x
            (InternalServerError
               (''Timeout waiting for HTTP response on '' @ action (ex_data ex)))
            (s\<lparr>exchanges := (exchanges s)(x \<mapsto> ex\<lparr>ex_timer := Fired\<rparr>)\<rparr>))"

text \<open>The inner \<open>catch\<close> of \<open>executeActionHandler\<close>, when \<open>await handler(data)\<close> throws.\<close>

definition handler_rejected :: "nat \<Rightarrow> thrown \<Rightarrow> adapter_state \<Rightarrow> adapter_state" where
  "handler_rejected x err s =
     (case exchanges s x of
        None \<Rightarrow> s
      | Some ex \<Rightarrow>
          (let s1 = clearTimeout x s;
               s2 = (case request_id (ex_data ex) of
                       None \<Rightarrow> s1
                     | Some rid \<Rightarrow>
                         if rid \<noteq> []
                         then s1\<lparr>pendingResponses := (pendingResponses s1)(rid := None)\<rparr>
                         else s1)
           in reject x err s2))"

definition handler_finished :: "nat \<Rightarrow> adapter_state \<Rightarrow> adapter_state" where
  "handler_finished x s =
     (case exchanges s x of
        None \<Rightarrow> s
      | Some ex \<Rightarrow> s\<lparr>exchanges := (exchanges s)(x \<mapsto> ex\<lparr>ex_handler_running := False\<rparr>)\<rparr>)"

text \<open>
  The \<open>try\<close> block of \<open>handleHTTPRequest\<close> before the dispatch: the error thrown, or
  the handler and envelope to dispatch. For a null envelope \<open>data?.action\<close> is
  \<open>undefined\<close>, which the template string prints as such.
\<close>

definition check_request ::
  "receivable_actions \<Rightarrow> request_dto option \<Rightarrow> thrown + (handler \<times> request_dto)" where
  "check_request actionsToConsume d =
     (case d of
        None \<Rightarrow> Inl (BadRequestError ''Invalid action provided: undefined'')
      | Some dt \<Rightarrow>
          if \<not> has_property (action dt) actionsToConsume then
            Inl (BadRequestError (''Invalid action provided: '' @ action dt))
          else
            (case get_property actionsToConsume (action dt) of
               None \<Rightarrow>
                 Inl (InternalServerError (''Handler not defined for action: '' @ action dt))
             | Some h \<Rightarrow> Inr (h, dt)))"

text \<open>The \<open>catch\<close> block of \<open>handleHTTPRequest\<close>.\<close>

definition error_response :: "thrown \<Rightarrow> wire_response" where
  "error_response error =
     (if instanceof_BaseError error then (code error, ErrorBody (message error))
      else (500, ErrorBody ''Internal Server Error''))"

definition handleHTTPRequest ::
  "receivable_actions \<Rightarrow> request_dto option \<Rightarrow> nat \<Rightarrow> adapter_state \<Rightarrow> adapter_state" where
  "handleHTTPRequest actionsToConsume d res s =
     (case check_request actionsToConsume d of
        Inl error \<Rightarrow> write_response res (error_response error) s
      | Inr (h, dt) \<Rightarrow> executeActionHandler h dt res s)"

section \<open>Events\<close>

text \<open>
  The adapter runs on a single-threaded event loop; each of its callbacks runs to its
  next \<open>await\<close> without interruption. The events are: a request body has been read and
  parsed (\<open>None\<close> for an empty body), \<open>sendResponse\<close> is called, the handler of an
  exchange rejects (or throws) or returns, a timer fires, time passes.
\<close>

datatype event =
    HttpRequest "request_dto option"
  | Inject response_dto
  | HandlerRejects nat thrown
  | HandlerReturns nat
  | TimerFires nat
  | Advance nat

text \<open>
  One event. \<open>None\<close> marks an event that cannot happen in the state: a handler settles
  once, after it was invoked, and a timer fires only while it is started and not
  before it is due.
\<close>

definition step :: "receivable_actions \<Rightarrow> adapter_state \<Rightarrow> event \<Rightarrow> adapter_state option" where
  "step acts s ev =
     (case ev of
        HttpRequest d \<Rightarrow>
          Some (handleHTTPRequest acts d (next_conn s) (s\<lparr>next_conn := Suc (next_conn s)\<rparr>))
      | Inject d \<Rightarrow> Some (sendResponse d s)
      | HandlerRejects x err \<Rightarrow>
          (case exchanges s x of
             None \<Rightarrow> None
           | Some ex \<Rightarrow>
               if ex_handler_running ex
               then Some (handler_rejected x err (handler_finished x s))
               else None)
      | HandlerReturns x \<Rightarrow>
          (case exchanges s x of
             None \<Rightarrow> None
           | Some ex \<Rightarrow>
               if ex_handler_running ex then Some (handler_finished x s) else None)
      | TimerFires x \<Rightarrow>
          (case exchanges s x of
             None \<Rightarrow> None
           | Some ex \<Rightarrow>
               if ex_timer ex = Armed \<and> ex_deadline ex \<le> now s
               then Some (timer_fired x s)
               else None)
      | Advance d \<Rightarrow> Some (s\<lparr>now := now s + d\<rparr>))"

fun run :: "receivable_actions \<Rightarrow> adapter_state \<Rightarrow> event list \<Rightarrow> adapter_state option" where
  "run acts s [] = Some s"
| "run acts s (ev # evs) =
     (case step acts s ev of None \<Rightarrow> None | Some s' \<Rightarrow> run acts s' evs)"

section \<open>The wire form of envelopes\<close>
















text \<open>The whitespace \<open>JSON.parse\<close> skips between tokens.\<close>

definition is_ws :: "char \<Rightarrow> bool" where
  "is_ws c = (c = CHR '' '' \<or> c = CHR 0x09 \<or> c = CHR 0x0A \<or> c = CHR 0x0D)"

definition skip_ws :: "string \<Rightarrow> string" where
  "skip_ws s = dropWhile is_ws s"



















text \<open>What can follow a value in a text, and the characters a value can start with.\<close>

definition terminated :: "string \<Rightarrow> bool" where
  "terminated rest =
     (rest = [] \<or> hd rest = CHR '','' \<or> hd rest = CHR '']'' \<or> hd rest = CHR ''}'')"


section \<open>Invariant of the adapter\<close>

text \<open>A pre-dispatch rejection as it appears on the wire: a bare error body under status 400 or 500.\<close>

definition rejection :: "wire_response \<Rightarrow> bool" where
  "rejection w = (case w of (st, ErrorBody m) \<Rightarrow> st = 400 \<or> st = 500 | (st, EnvelopeBody r) \<Rightarrow> False)"

text \<open>What an exchange has written on its connection, given the state of its promise.\<close>

definition written :: "exchange \<Rightarrow> wire_response list" where
  "written ex = (case finish (ex_data ex) (ex_promise ex) of None \<Rightarrow> [] | Some w \<Rightarrow> [w])"

text \<open>An exchange belongs to a connection already opened, its timer is started exactly while its promise is pending, its callback was called at most once, and its connection holds what it has written.\<close>

definition exchange_ok :: "adapter_state \<Rightarrow> nat \<Rightarrow> exchange \<Rightarrow> bool" where
  "exchange_ok s x ex =
     (x < next_conn s \<and> (ex_timer ex = Armed \<longleftrightarrow> ex_promise ex = Pending)
      \<and> ex_resolver_calls ex \<le> 1 \<and> wire s x = written ex)"

text \<open>An entry of \<open>pendingResponses\<close> is stored under the non-empty request id of an existing exchange, whose callback has not been called.\<close>

definition entry_ok :: "adapter_state \<Rightarrow> string \<Rightarrow> nat \<Rightarrow> bool" where
  "entry_ok s rid x =
     (rid \<noteq> [] \<and>
      (case exchanges s x of
         None \<Rightarrow> False
       | Some ex \<Rightarrow> request_id (ex_data ex) = Some rid \<and> ex_resolver_calls ex = 0))"

text \<open>A connection without an exchange holds one rejection if it was opened and nothing otherwise.\<close>

definition idle_ok :: "adapter_state \<Rightarrow> nat \<Rightarrow> bool" where
  "idle_ok s c =
     (if c < next_conn s then (case wire s c of [w] \<Rightarrow> rejection w | _ \<Rightarrow> False)
      else wire s c = [])"

text \<open>The invariant of the adapter; it holds in every state the events can lead to (\<open>invariant_reachable\<close>).\<close>

definition invariant :: "adapter_state \<Rightarrow> bool" where
  "invariant s =
     ((\<forall>x ex. exchanges s x = Some ex \<longrightarrow> exchange_ok s x ex)
      \<and> (\<forall>rid x. pendingResponses s rid = Some x \<longrightarrow> entry_ok s rid x)
      \<and> (\<forall>c. exchanges s c = None \<longrightarrow> idle_ok s c))"

text \<open>The callbacks seen from one exchange: settling its promise, clearing its timer, counting a call of its callback.\<close>

definition settle_ex :: "promise_state \<Rightarrow> exchange \<Rightarrow> exchange" where
  "settle_ex outcome ex = (if ex_promise ex = Pending then ex\<lparr>ex_promise := outcome\<rparr> else ex)"

definition clear_ex :: "exchange \<Rightarrow> exchange" where
  "clear_ex ex = (if ex_timer ex = Armed then ex\<lparr>ex_timer := Cancelled\<rparr> else ex)"

definition call_ex :: "exchange \<Rightarrow> exchange" where
  "call_ex ex = ex\<lparr>ex_resolver_calls := Suc (ex_resolver_calls ex)\<rparr>"

text \<open>Replacing an exchange together with what its connection holds.\<close>

definition put_exchange :: "nat \<Rightarrow> exchange \<Rightarrow> adapter_state \<Rightarrow> adapter_state" where
  "put_exchange x ex s =
     s\<lparr>exchanges := (exchanges s)(x \<mapsto> ex), wire := (wire s)(x := written ex)\<rparr>"

text \<open>How an exchange may change: its envelope stays, calls are only added, a settled promise and a stopped timer stay as they are.\<close>

definition evolves :: "exchange \<Rightarrow> exchange \<Rightarrow> bool" where
  "evolves ex ex' =
     (ex_data ex' = ex_data ex \<and> ex_resolver_calls ex \<le> ex_resolver_calls ex'
      \<and> (ex_promise ex \<noteq> Pending \<longrightarrow> ex_promise ex' = ex_promise ex)
      \<and> (ex_timer ex \<noteq> Armed \<longrightarrow> ex_timer ex' = ex_timer ex))"

section \<open>A sample configuration\<close>

text \<open>
  One bound action, one action whose handler is missing, and an exchange with the
  request id \<open>r1\<close>; the states are those after the request was dispatched and
  after 30 seconds have passed since.
\<close>

definition example_actions :: receivable_actions where
  "example_actions = [(''ping'', Some (Registered 0)), (''stale'', None)]"

definition example_request :: request_dto where
  "example_request =
     \<lparr>action = ''ping'', correlation_id = ''c1'', request_id = Some ''r1'',
      transport = ''http'', data = JObj []\<rparr>"

definition example_response :: response_dto where
  "example_response =
     \<lparr>res_action = ''ping'', res_correlation_id = ''c1'', res_request_id = Some ''r1'',
      res_data = JObj [(''pong'', JBool True)], res_error = [], res_status = 200\<rparr>"

definition example_exchange :: exchange where
  "example_exchange =
     \<lparr>ex_data = example_request, ex_handler = Registered 0, ex_deadline = 30000, ex_timer = Armed,
      ex_promise = Pending, ex_handler_running = True, ex_resolver_calls = 0\<rparr>"

definition example_dispatched :: adapter_state where
  "example_dispatched =
     \<lparr>pendingResponses = [''r1'' \<mapsto> 0], exchanges = [0 \<mapsto> example_exchange],
      wire = (\<lambda>c. []), next_conn = 1, now = 0\<rparr>"

definition example_overdue :: adapter_state where
  "example_overdue = example_dispatched\<lparr>now := 30000\<rparr>"

section \<open>The invariant holds in every reachable state\<close>

lemma invariant_initial: "invariant initial_state"
  by (simp add: invariant_def initial_state_def idle_ok_def)

lemma invariant_update:
  assumes inv: "invariant s"
    and ex: "exchanges s x = Some ex"
    and exs: "exchanges s' = (exchanges s)(x \<mapsto> ex')"
    and wr: "wire s' = (wire s)(x := written ex')"
    and nc: "next_conn s' = next_conn s"
    and dt: "ex_data ex' = ex_data ex"
    and tm: "ex_timer ex' = Armed \<longleftrightarrow> ex_promise ex' = Pending"
    and calls: "ex_resolver_calls ex' \<le> 1"
    and reg: "\<And>rid y. pendingResponses s' rid = Some y \<Longrightarrow>
                pendingResponses s rid = Some y \<and> (y = x \<longrightarrow> ex_resolver_calls ex' = 0)"
  shows "invariant s'"
proof -
  from inv ex have okx: "exchange_ok s x ex" by (simp add: invariant_def)
  have p1: "exchange_ok s' y e" if h: "exchanges s' y = Some e" for y e
  proof (cases "y = x")
    case True
    with h exs have "e = ex'" by simp
    with True okx wr nc tm calls show ?thesis by (simp add: exchange_ok_def)
  next
    case False
    with h exs have "exchanges s y = Some e" by simp
    with inv have "exchange_ok s y e" by (simp add: invariant_def)
    with False wr nc show ?thesis by (simp add: exchange_ok_def)
  qed
  have p2: "entry_ok s' rid y" if h: "pendingResponses s' rid = Some y" for rid y
  proof -
    from reg [OF h] have a: "pendingResponses s rid = Some y"
      and b: "y = x \<longrightarrow> ex_resolver_calls ex' = 0" by simp_all
    from inv a have e: "entry_ok s rid y" by (simp add: invariant_def)
    show ?thesis
    proof (cases "y = x")
      case True
      with e ex exs dt b show ?thesis by (simp add: entry_ok_def)
    next
      case False
      with e exs show ?thesis by (simp add: entry_ok_def)
    qed
  qed
  have p3: "idle_ok s' c" if h: "exchanges s' c = None" for c
  proof -
    from h exs have ne: "c \<noteq> x" by (auto split: if_splits)
    with h exs have "exchanges s c = None" by simp
    with inv have "idle_ok s c" by (simp add: invariant_def)
    with ne wr nc show ?thesis by (auto simp: idle_ok_def)
  qed
  from p1 p2 p3 show ?thesis by (simp add: invariant_def)
qed

lemma invariant_advance: "invariant s \<Longrightarrow> invariant (s\<lparr>now := now s + d\<rparr>)"
  by (auto simp: invariant_def idle_ok_def exchange_ok_def entry_ok_def)

lemma put_exchange_fields [simp]:
  "exchanges (put_exchange x ex s) = (exchanges s)(x \<mapsto> ex)"
  "wire (put_exchange x ex s) = (wire s)(x := written ex)"
  "next_conn (put_exchange x ex s) = next_conn s"
  "pendingResponses (put_exchange x ex s) = pendingResponses s"
  "now (put_exchange x ex s) = now s"
  by (simp_all add: put_exchange_def)

lemma put_exchange_twice [simp]:
  "put_exchange x ex2 (put_exchange x ex1 s) = put_exchange x ex2 s"
  by (simp add: put_exchange_def)

lemma written_call_ex [simp]: "written (call_ex ex) = written ex"
  by (simp add: written_def call_ex_def)

lemma written_clear_ex [simp]: "written (clear_ex ex) = written ex"
  by (simp add: written_def clear_ex_def)

lemma count_call_put:
  "exchanges s x = Some ex \<Longrightarrow> wire s x = written ex \<Longrightarrow>
   count_call x s = put_exchange x (call_ex ex) s"
  by (simp add: count_call_def put_exchange_def fun_upd_idem) (simp add: call_ex_def)

lemma clearTimeout_put:
  "exchanges s x = Some ex \<Longrightarrow> wire s x = written ex \<Longrightarrow>
   clearTimeout x s = put_exchange x (clear_ex ex) s"
  by (simp add: clearTimeout_def put_exchange_def fun_upd_idem map_upd_triv)
    (simp add: clear_ex_def map_upd_triv)

lemma finish_settled: "outcome \<noteq> Pending \<Longrightarrow> \<exists>w. finish d outcome = Some w"
  by (cases outcome) simp_all

lemma settle_put:
  assumes "exchanges s x = Some ex" and "wire s x = written ex" and "outcome \<noteq> Pending"
  shows "settle x outcome s = put_exchange x (settle_ex outcome ex) s"
proof (cases "ex_promise ex = Pending")
  case True
  from finish_settled [OF assms(3)] obtain w where w: "finish (ex_data ex) outcome = Some w" ..
  from True assms(2) have "wire s x = []" by (simp add: written_def)
  with True assms(1) w show ?thesis
    by (simp add: settle_def put_exchange_def settle_ex_def written_def write_response_def)
next
  case False
  with assms(1,2) show ?thesis
    by (simp add: settle_def put_exchange_def settle_ex_def map_upd_triv fun_upd_idem)
qed

lemma invariant_exchange:
  "invariant s \<Longrightarrow> exchanges s x = Some ex \<Longrightarrow> exchange_ok s x ex"
  by (simp add: invariant_def)

lemma invariant_wire:
  "invariant s \<Longrightarrow> exchanges s x = Some ex \<Longrightarrow> wire s x = written ex"
  by (simp add: invariant_def exchange_ok_def)

lemma invariant_entry:
  "invariant s \<Longrightarrow> pendingResponses s rid = Some x \<Longrightarrow> entry_ok s rid x"
  by (simp add: invariant_def)

lemma handler_finished_put:
  "exchanges s x = Some ex \<Longrightarrow> wire s x = written ex \<Longrightarrow>
   handler_finished x s = put_exchange x (ex\<lparr>ex_handler_running := False\<rparr>) s"
  by (simp add: handler_finished_def put_exchange_def fun_upd_idem written_def)

lemma timer_fired_put:
  assumes "exchanges s x = Some ex" and "wire s x = written ex"
  shows "timer_fired x s =
         put_exchange x
           (settle_ex
              (Rejected (InternalServerError
                 (''Timeout waiting for HTTP response on '' @ action (ex_data ex))))
              (ex\<lparr>ex_timer := Fired\<rparr>)) s"
proof -
  have "s\<lparr>exchanges := (exchanges s)(x \<mapsto> ex\<lparr>ex_timer := Fired\<rparr>)\<rparr>
        = put_exchange x (ex\<lparr>ex_timer := Fired\<rparr>) s"
    using assms by (simp add: put_exchange_def fun_upd_idem written_def)
  then show ?thesis
    using assms by (simp add: timer_fired_def reject_def settle_put)
qed

lemma sendResponse_noop:
  "res_request_id d = None \<or> res_request_id d = Some [] \<or>
   (\<exists>rid. res_request_id d = Some rid \<and> pendingResponses s rid = None) \<Longrightarrow>
   sendResponse d s = s"
  by (auto simp: sendResponse_def)

lemma sendResponse_put:
  assumes "res_request_id d = Some rid" and "rid \<noteq> []"
    and "pendingResponses s rid = Some x"
    and "exchanges s x = Some ex" and "wire s x = written ex"
  shows "sendResponse d s =
         (put_exchange x (settle_ex (Resolved d) (clear_ex (call_ex ex))) s)
           \<lparr>pendingResponses := (pendingResponses s)(rid := None)\<rparr>"
  using assms
  by (simp add: sendResponse_def resolver_def resolve_def count_call_put clearTimeout_put
      settle_put)

lemma handler_rejected_put:
  assumes "exchanges s x = Some ex" and "wire s x = written ex"
  shows "handler_rejected x err s =
         (put_exchange x (settle_ex (Rejected err) (clear_ex ex)) s)
           \<lparr>pendingResponses :=
              (case request_id (ex_data ex) of
                 None \<Rightarrow> pendingResponses s
               | Some rid \<Rightarrow>
                   if rid \<noteq> [] then (pendingResponses s)(rid := None)
                   else pendingResponses s)\<rparr>"
proof -
  let ?s1 = "put_exchange x (clear_ex ex) s"
  have c: "clearTimeout x s = ?s1" using assms by (rule clearTimeout_put)
  have r: "reject x err (?s1\<lparr>pendingResponses := p\<rparr>)
           = (put_exchange x (settle_ex (Rejected err) (clear_ex ex)) s)\<lparr>pendingResponses := p\<rparr>"
    for p
  proof -
    have "settle x (Rejected err) (?s1\<lparr>pendingResponses := p\<rparr>)
          = put_exchange x (settle_ex (Rejected err) (clear_ex ex)) (?s1\<lparr>pendingResponses := p\<rparr>)"
      by (rule settle_put) simp_all
    then show ?thesis by (simp add: reject_def put_exchange_def)
  qed
  have r0: "reject x err ?s1 = (put_exchange x (settle_ex (Rejected err) (clear_ex ex)) s)"
  proof -
    have "settle x (Rejected err) ?s1
          = put_exchange x (settle_ex (Rejected err) (clear_ex ex)) ?s1"
      by (rule settle_put) simp_all
    then show ?thesis by (simp add: reject_def)
  qed
  show ?thesis
    using assms(1) c r r0
    by (simp add: handler_rejected_def Let_def split: option.splits)
qed

lemma invariant_handler_finished:
  assumes "invariant s"
  shows "invariant (handler_finished x s)"
proof (cases "exchanges s x")
  case None
  with assms show ?thesis by (simp add: handler_finished_def)
next
  case (Some ex)
  let ?ex' = "ex\<lparr>ex_handler_running := False\<rparr>"
  from assms Some have ok: "exchange_ok s x ex" by (rule invariant_exchange)
  from assms Some have w: "wire s x = written ex" by (rule invariant_wire)
  have eq: "handler_finished x s = put_exchange x ?ex' s"
    using Some w by (rule handler_finished_put)
  have "invariant (put_exchange x ?ex' s)"
  proof (rule invariant_update [OF assms Some])
    show "ex_timer ?ex' = Armed \<longleftrightarrow> ex_promise ?ex' = Pending"
      using ok by (simp add: exchange_ok_def)
    show "ex_resolver_calls ?ex' \<le> 1" using ok by (simp add: exchange_ok_def)
    show "pendingResponses s rid = Some y \<and> (y = x \<longrightarrow> ex_resolver_calls ?ex' = 0)"
      if "pendingResponses (put_exchange x ?ex' s) rid = Some y" for rid y
      using that invariant_entry [OF assms, of rid y] Some by (auto simp: entry_ok_def)
  qed simp_all
  with eq show ?thesis by simp
qed

lemma invariant_timer_fired:
  assumes "invariant s" and "exchanges s x = Some ex"
  shows "invariant (timer_fired x s)"
proof -
  let ?err = "InternalServerError (''Timeout waiting for HTTP response on '' @ action (ex_data ex))"
  let ?ex' = "settle_ex (Rejected ?err) (ex\<lparr>ex_timer := Fired\<rparr>)"
  from assms have ok: "exchange_ok s x ex" by (rule invariant_exchange)
  from assms have w: "wire s x = written ex" by (rule invariant_wire)
  have eq: "timer_fired x s = put_exchange x ?ex' s"
    using assms(2) w by (rule timer_fired_put)
  have "invariant (put_exchange x ?ex' s)"
  proof (rule invariant_update [OF assms])
    show "ex_data ?ex' = ex_data ex" by (simp add: settle_ex_def)
    show "ex_timer ?ex' = Armed \<longleftrightarrow> ex_promise ?ex' = Pending"
      by (simp add: settle_ex_def)
    show "ex_resolver_calls ?ex' \<le> 1" using ok by (simp add: exchange_ok_def settle_ex_def)
    show "pendingResponses s rid = Some y \<and> (y = x \<longrightarrow> ex_resolver_calls ?ex' = 0)"
      if "pendingResponses (put_exchange x ?ex' s) rid = Some y" for rid y
      using that invariant_entry [OF assms(1), of rid y] assms(2)
      by (auto simp: entry_ok_def settle_ex_def)
  qed simp_all
  with eq show ?thesis by simp
qed

lemma invariant_handler_rejected:
  assumes "invariant s"
  shows "invariant (handler_rejected x err s)"
proof (cases "exchanges s x")
  case None
  with assms show ?thesis by (simp add: handler_rejected_def)
next
  case (Some ex)
  let ?ex' = "settle_ex (Rejected err) (clear_ex ex)"
  let ?p = "case request_id (ex_data ex) of
              None \<Rightarrow> pendingResponses s
            | Some rid \<Rightarrow>
                if rid \<noteq> [] then (pendingResponses s)(rid := None) else pendingResponses s"
  let ?s' = "(put_exchange x ?ex' s)\<lparr>pendingResponses := ?p\<rparr>"
  from assms Some have ok: "exchange_ok s x ex" by (rule invariant_exchange)
  from assms Some have w: "wire s x = written ex" by (rule invariant_wire)
  have eq: "handler_rejected x err s = ?s'"
    using Some w by (rule handler_rejected_put)
  have "invariant ?s'"
  proof (rule invariant_update [OF assms Some])
    show "ex_data ?ex' = ex_data ex" by (simp add: settle_ex_def clear_ex_def)
    show "ex_timer ?ex' = Armed \<longleftrightarrow> ex_promise ?ex' = Pending"
      using ok by (simp add: exchange_ok_def settle_ex_def clear_ex_def)
    show "ex_resolver_calls ?ex' \<le> 1"
      using ok by (simp add: exchange_ok_def settle_ex_def clear_ex_def)
    show "pendingResponses s rid = Some y \<and> (y = x \<longrightarrow> ex_resolver_calls ?ex' = 0)"
      if h: "pendingResponses ?s' rid = Some y" for rid y
    proof -
      from h have a: "pendingResponses s rid = Some y"
        by (auto split: option.splits if_splits)
      from invariant_entry [OF assms a] Some
      have "y = x \<longrightarrow> ex_resolver_calls ex = 0" by (auto simp: entry_ok_def)
      with a show ?thesis by (simp add: settle_ex_def clear_ex_def)
    qed
  qed simp_all
  with eq show ?thesis by simp
qed

lemma invariant_sendResponse:
  assumes "invariant s"
  shows "invariant (sendResponse d s)"
proof (cases "\<exists>rid x. res_request_id d = Some rid \<and> rid \<noteq> [] \<and> pendingResponses s rid = Some x")
  case False
  then have "sendResponse d s = s"
    by (intro sendResponse_noop) (cases "res_request_id d", auto)
  with assms show ?thesis by simp
next
  case True
  then obtain rid x where rid: "res_request_id d = Some rid" "rid \<noteq> []"
    and reg: "pendingResponses s rid = Some x" by blast
  from invariant_entry [OF assms reg] obtain ex where ex: "exchanges s x = Some ex"
    and id: "request_id (ex_data ex) = Some rid" and c0: "ex_resolver_calls ex = 0"
    by (auto simp: entry_ok_def split: option.splits)
  let ?ex' = "settle_ex (Resolved d) (clear_ex (call_ex ex))"
  let ?s' = "(put_exchange x ?ex' s)\<lparr>pendingResponses := (pendingResponses s)(rid := None)\<rparr>"
  from assms ex have ok: "exchange_ok s x ex" by (rule invariant_exchange)
  from assms ex have w: "wire s x = written ex" by (rule invariant_wire)
  have eq: "sendResponse d s = ?s'"
    using rid reg ex w by (rule sendResponse_put)
  have "invariant ?s'"
  proof (rule invariant_update [OF assms ex])
    show "ex_data ?ex' = ex_data ex" by (simp add: settle_ex_def clear_ex_def call_ex_def)
    show "ex_timer ?ex' = Armed \<longleftrightarrow> ex_promise ?ex' = Pending"
      using ok by (simp add: exchange_ok_def settle_ex_def clear_ex_def call_ex_def)
    show "ex_resolver_calls ?ex' \<le> 1"
      using c0 by (simp add: settle_ex_def clear_ex_def call_ex_def)
    show "pendingResponses s r = Some y \<and> (y = x \<longrightarrow> ex_resolver_calls ?ex' = 0)"
      if h: "pendingResponses ?s' r = Some y" for r y
    proof -
      from h have a: "pendingResponses s r = Some y" and ne: "r \<noteq> rid"
        by (auto split: if_splits)
      from invariant_entry [OF assms a] ex id ne have "y \<noteq> x" by (auto simp: entry_ok_def)
      with a show ?thesis by simp
    qed
  qed simp_all
  with eq show ?thesis by simp
qed

lemma invariant_fresh:
  assumes "invariant s" and "next_conn s \<le> c"
  shows "exchanges s c = None" and "wire s c = []"
proof -
  show n: "exchanges s c = None"
  proof (cases "exchanges s c")
    case (Some ex)
    with assms(1) have "exchange_ok s c ex" by (rule invariant_exchange)
    with assms(2) show ?thesis by (simp add: exchange_ok_def)
  qed simp
  with assms(1) have "idle_ok s c" by (simp add: invariant_def)
  with assms(2) show "wire s c = []" by (simp add: idle_ok_def)
qed

lemma check_request_rejection:
  "check_request acts d = Inl e \<Longrightarrow> rejection (error_response e)"
  by (auto simp: check_request_def error_response_def BadRequestError_def
      InternalServerError_def rejection_def split: option.splits if_splits)

lemma invariant_rejected_request:
  assumes inv: "invariant s" and rej: "rejection w"
  shows "invariant (write_response (next_conn s) w (s\<lparr>next_conn := Suc (next_conn s)\<rparr>))"
proof -
  let ?c = "next_conn s"
  let ?s' = "write_response ?c w (s\<lparr>next_conn := Suc ?c\<rparr>)"
  from invariant_fresh [OF inv, of ?c] have none: "exchanges s ?c = None"
    and empty: "wire s ?c = []" by simp_all
  have f: "exchanges ?s' = exchanges s" "pendingResponses ?s' = pendingResponses s"
    "next_conn ?s' = Suc ?c" "wire ?s' = (wire s)(?c := [w])"
    using empty by (simp_all add: write_response_def)
  have p1: "exchange_ok ?s' x ex" if h: "exchanges ?s' x = Some ex" for x ex
  proof -
    from h f have e: "exchanges s x = Some ex" by simp
    with inv have ok: "exchange_ok s x ex" by (rule invariant_exchange)
    from e none have "x \<noteq> ?c" by auto
    with ok f show ?thesis by (simp add: exchange_ok_def)
  qed
  have p2: "entry_ok ?s' rid x" if h: "pendingResponses ?s' rid = Some x" for rid x
  proof -
    from h f have "pendingResponses s rid = Some x" by simp
    with inv have "entry_ok s rid x" by (rule invariant_entry)
    with f show ?thesis by (simp add: entry_ok_def)
  qed
  have p3: "idle_ok ?s' c" if h: "exchanges ?s' c = None" for c
  proof (cases "c = ?c")
    case True
    with f rej show ?thesis by (simp add: idle_ok_def)
  next
    case False
    from h f inv have "idle_ok s c" by (simp add: invariant_def)
    with False f show ?thesis by (auto simp: idle_ok_def)
  qed
  from p1 p2 p3 show ?thesis unfolding invariant_def by blast
qed

lemma executeActionHandler_fields:
  "exchanges (executeActionHandler h d c s) =
     (exchanges s)(c \<mapsto> \<lparr>ex_data = d, ex_handler = h, ex_deadline = now s + 30000,
        ex_timer = Armed, ex_promise = Pending, ex_handler_running = True,
        ex_resolver_calls = 0\<rparr>)"
  "pendingResponses (executeActionHandler h d c s) =
     (case request_id d of
        None \<Rightarrow> pendingResponses s
      | Some rid \<Rightarrow> if rid \<noteq> [] then (pendingResponses s)(rid \<mapsto> c) else pendingResponses s)"
  "wire (executeActionHandler h d c s) = wire s"
  "next_conn (executeActionHandler h d c s) = next_conn s"
  "now (executeActionHandler h d c s) = now s"
  by (simp_all add: executeActionHandler_def Let_def split: option.splits)

lemma invariant_dispatched_request:
  assumes inv: "invariant s"
  shows "invariant (executeActionHandler h d (next_conn s) (s\<lparr>next_conn := Suc (next_conn s)\<rparr>))"
proof -
  let ?c = "next_conn s"
  let ?ex = "\<lparr>ex_data = d, ex_handler = h, ex_deadline = now s + 30000,
        ex_timer = Armed, ex_promise = Pending, ex_handler_running = True,
        ex_resolver_calls = 0\<rparr>"
  let ?s' = "executeActionHandler h d ?c (s\<lparr>next_conn := Suc ?c\<rparr>)"
  from invariant_fresh [OF inv, of ?c] have none: "exchanges s ?c = None"
    and empty: "wire s ?c = []" by simp_all
  have f: "exchanges ?s' = (exchanges s)(?c \<mapsto> ?ex)"
    "next_conn ?s' = Suc ?c" "wire ?s' = wire s"
    by (simp_all add: executeActionHandler_fields)
  have fp: "pendingResponses ?s' =
     (case request_id d of
        None \<Rightarrow> pendingResponses s
      | Some rid \<Rightarrow> if rid \<noteq> [] then (pendingResponses s)(rid \<mapsto> ?c) else pendingResponses s)"
    by (simp add: executeActionHandler_fields split: option.splits)
  have p1: "exchange_ok ?s' x ex" if h: "exchanges ?s' x = Some ex" for x ex
  proof (cases "x = ?c")
    case True
    with h f have "ex = ?ex" by simp
    with True f empty show ?thesis by (simp add: exchange_ok_def written_def)
  next
    case False
    with h f have "exchanges s x = Some ex" by simp
    with inv have "exchange_ok s x ex" by (rule invariant_exchange)
    with f show ?thesis by (simp add: exchange_ok_def)
  qed
  have p2: "entry_ok ?s' rid x" if h: "pendingResponses ?s' rid = Some x" for rid x
  proof (cases "pendingResponses s rid = Some x \<and> x \<noteq> ?c")
    case True
    with inv have "entry_ok s rid x" by (simp add: invariant_entry)
    with True f show ?thesis by (simp add: entry_ok_def)
  next
    case False
    have old: "pendingResponses s rid = Some ?c \<Longrightarrow> False"
    proof -
      assume "pendingResponses s rid = Some ?c"
      with inv have "entry_ok s rid ?c" by (rule invariant_entry)
      with none show False by (simp add: entry_ok_def)
    qed
    from h fp False old have "x = ?c \<and> request_id d = Some rid \<and> rid \<noteq> []"
      by (auto split: option.splits if_splits)
    with f show ?thesis by (simp add: entry_ok_def)
  qed
  have p3: "idle_ok ?s' c" if h: "exchanges ?s' c = None" for c
  proof -
    from h f have ne: "c \<noteq> ?c" and "exchanges s c = None" by (auto split: if_splits)
    with inv have "idle_ok s c" by (simp add: invariant_def)
    with ne f show ?thesis by (auto simp: idle_ok_def)
  qed
  from p1 p2 p3 show ?thesis unfolding invariant_def by blast
qed

lemma invariant_handleHTTPRequest:
  assumes "invariant s"
  shows "invariant (handleHTTPRequest acts d (next_conn s) (s\<lparr>next_conn := Suc (next_conn s)\<rparr>))"
proof (cases "check_request acts d")
  case (Inl e)
  then have "rejection (error_response e)" by (rule check_request_rejection)
  with assms Inl show ?thesis
    by (simp add: handleHTTPRequest_def invariant_rejected_request)
next
  case (Inr p)
  with assms show ?thesis
    by (cases p) (simp add: handleHTTPRequest_def invariant_dispatched_request)
qed

lemma invariant_step:
  assumes "invariant s" and "step acts s ev = Some s'"
  shows "invariant s'"
proof (cases ev)
  case (HttpRequest d)
  with assms show ?thesis by (auto simp: step_def invariant_handleHTTPRequest)
next
  case (Inject d)
  with assms show ?thesis by (auto simp: step_def invariant_sendResponse)
next
  case (HandlerRejects x err)
  with assms show ?thesis
    by (auto simp: step_def invariant_handler_rejected invariant_handler_finished
        split: option.splits if_splits)
next
  case (HandlerReturns x)
  with assms show ?thesis
    by (auto simp: step_def invariant_handler_finished split: option.splits if_splits)
next
  case (TimerFires x)
  with assms show ?thesis
    by (auto simp: step_def invariant_timer_fired split: option.splits if_splits)
next
  case (Advance d)
  with assms show ?thesis by (auto simp: step_def invariant_advance)
qed

lemma invariant_run:
  "invariant s \<Longrightarrow> run acts s evs = Some s' \<Longrightarrow> invariant s'"
proof (induction evs arbitrary: s)
  case Nil
  then show ?case by simp
next
  case (Cons ev evs)
  then show ?case by (auto split: option.splits dest: invariant_step)
qed

lemma invariant_reachable:
  "run acts initial_state evs = Some s \<Longrightarrow> invariant s"
  using invariant_initial by (rule invariant_run)

lemma evolves_refl: "evolves ex ex"
  by (simp add: evolves_def)

lemma evolves_trans: "evolves a b \<Longrightarrow> evolves b c \<Longrightarrow> evolves a c"
  by (auto simp: evolves_def)

lemma evolves_callbacks:
  "evolves ex (settle_ex outcome (clear_ex (call_ex ex)))"
  "evolves ex (settle_ex outcome (clear_ex (ex\<lparr>ex_handler_running := False\<rparr>)))"
  "evolves ex (ex\<lparr>ex_handler_running := False\<rparr>)"
  "ex_timer ex = Armed \<Longrightarrow> evolves ex (settle_ex outcome (ex\<lparr>ex_timer := Fired\<rparr>))"
  by (simp_all add: evolves_def settle_ex_def clear_ex_def call_ex_def)

lemma step_exchanges:
  assumes inv: "invariant s" and st: "step acts s ev = Some s'"
  shows "exchanges s' = exchanges s
         \<or> (\<exists>y ey ey'. exchanges s y = Some ey \<and> evolves ey ey'
               \<and> exchanges s' = (exchanges s)(y \<mapsto> ey'))
         \<or> (\<exists>ey'. exchanges s' = (exchanges s)(next_conn s \<mapsto> ey'))"
proof (cases ev)
  case (HttpRequest d)
  with st have s': "s' = handleHTTPRequest acts d (next_conn s) (s\<lparr>next_conn := Suc (next_conn s)\<rparr>)"
    by (simp add: step_def)
  show ?thesis
  proof (cases "check_request acts d")
    case (Inl e)
    with s' have "exchanges s' = exchanges s"
      by (simp add: handleHTTPRequest_def write_response_def)
    then show ?thesis by simp
  next
    case (Inr p)
    with s' have "\<exists>ey'. exchanges s' = (exchanges s)(next_conn s \<mapsto> ey')"
      by (cases p) (auto simp: handleHTTPRequest_def executeActionHandler_fields)
    then show ?thesis by blast
  qed
next
  case (Inject d)
  with st have s': "s' = sendResponse d s" by (simp add: step_def)
  show ?thesis
  proof (cases "\<exists>rid x. res_request_id d = Some rid \<and> rid \<noteq> [] \<and> pendingResponses s rid = Some x")
    case False
    then have "sendResponse d s = s"
      by (intro sendResponse_noop) (cases "res_request_id d", auto)
    with s' show ?thesis by simp
  next
    case True
    then obtain rid x where rid: "res_request_id d = Some rid" "rid \<noteq> []"
      and reg: "pendingResponses s rid = Some x" by blast
    from invariant_entry [OF inv reg] obtain ex where ex: "exchanges s x = Some ex"
      by (auto simp: entry_ok_def split: option.splits)
    from inv ex have w: "wire s x = written ex" by (rule invariant_wire)
    from sendResponse_put [OF rid reg ex w] s'
    have "exchanges s' = (exchanges s)(x \<mapsto> settle_ex (Resolved d) (clear_ex (call_ex ex)))"
      by simp
    with ex evolves_callbacks(1) show ?thesis by blast
  qed
next
  case (HandlerRejects x err)
  with st obtain ex where ex: "exchanges s x = Some ex"
    and s': "s' = handler_rejected x err (handler_finished x s)"
    by (auto simp: step_def split: option.splits if_splits)
  from inv ex have w: "wire s x = written ex" by (rule invariant_wire)
  let ?ex1 = "ex\<lparr>ex_handler_running := False\<rparr>"
  have f: "handler_finished x s = put_exchange x ?ex1 s"
    using ex w by (rule handler_finished_put)
  have "handler_rejected x err (put_exchange x ?ex1 s) =
        (put_exchange x (settle_ex (Rejected err) (clear_ex ?ex1)) (put_exchange x ?ex1 s))
          \<lparr>pendingResponses :=
             (case request_id (ex_data ?ex1) of
                None \<Rightarrow> pendingResponses (put_exchange x ?ex1 s)
              | Some rid \<Rightarrow>
                  if rid \<noteq> [] then (pendingResponses (put_exchange x ?ex1 s))(rid := None)
                  else pendingResponses (put_exchange x ?ex1 s))\<rparr>"
    by (rule handler_rejected_put) simp_all
  with s' f have "exchanges s' = (exchanges s)(x \<mapsto> settle_ex (Rejected err) (clear_ex ?ex1))"
    by simp
  with ex evolves_callbacks(2) show ?thesis by blast
next
  case (HandlerReturns x)
  with st obtain ex where ex: "exchanges s x = Some ex"
    and s': "s' = handler_finished x s"
    by (auto simp: step_def split: option.splits if_splits)
  from inv ex have w: "wire s x = written ex" by (rule invariant_wire)
  from handler_finished_put [OF ex w] s'
  have "exchanges s' = (exchanges s)(x \<mapsto> ex\<lparr>ex_handler_running := False\<rparr>)" by simp
  with ex evolves_callbacks(3) show ?thesis by blast
next
  case (TimerFires x)
  with st obtain ex where ex: "exchanges s x = Some ex" and armed: "ex_timer ex = Armed"
    and s': "s' = timer_fired x s"
    by (auto simp: step_def split: option.splits if_splits)
  from inv ex have w: "wire s x = written ex" by (rule invariant_wire)
  from timer_fired_put [OF ex w] s'
  have "exchanges s' = (exchanges s)(x \<mapsto> settle_ex
              (Rejected (InternalServerError
                 (''Timeout waiting for HTTP response on '' @ action (ex_data ex))))
              (ex\<lparr>ex_timer := Fired\<rparr>))" by simp
  with ex evolves_callbacks(4) [OF armed] show ?thesis by blast
next
  case (Advance d)
  with st show ?thesis by (auto simp: step_def)
qed

lemma step_evolves:
  assumes inv: "invariant s" and ex: "exchanges s x = Some ex"
    and st: "step acts s ev = Some s'"
  shows "\<exists>ex'. exchanges s' x = Some ex' \<and> evolves ex ex'"
proof -
  from inv ex have "exchange_ok s x ex" by (rule invariant_exchange)
  then have lt: "x \<noteq> next_conn s" by (simp add: exchange_ok_def)
  from step_exchanges [OF inv st] ex lt show ?thesis
    by (auto simp: evolves_refl)
qed

lemma run_evolves:
  "invariant s \<Longrightarrow> exchanges s x = Some ex \<Longrightarrow> run acts s evs = Some s' \<Longrightarrow>
   \<exists>ex'. exchanges s' x = Some ex' \<and> evolves ex ex'"
proof (induction evs arbitrary: s ex)
  case Nil
  then show ?case by (simp add: evolves_refl)
next
  case (Cons ev evs)
  from Cons.prems(3) obtain s1 where st: "step acts s ev = Some s1"
    and rn: "run acts s1 evs = Some s'" by (auto split: option.splits)
  from step_evolves [OF Cons.prems(1,2) st] obtain ex1
    where e1: "exchanges s1 x = Some ex1" and ev1: "evolves ex ex1" by blast
  from Cons.prems(1) st have "invariant s1" by (rule invariant_step)
  from Cons.IH [OF this e1 rn] obtain ex' where "exchanges s' x = Some ex'"
    and "evolves ex1 ex'" by blast
  with ev1 show ?case by (blast intro: evolves_trans)
qed

text \<open>The sample states are reached by the events they are named after.\<close>

lemma example_dispatched_run:
  "run example_actions initial_state [HttpRequest (Some example_request)]
     = Some example_dispatched"
  by (simp add: step_def handleHTTPRequest_def check_request_def has_property_def
      get_property_def executeActionHandler_def example_actions_def example_request_def
      Object_prototype_keys_def
      example_dispatched_def example_exchange_def initial_state_def)

lemma example_overdue_run:
  "run example_actions initial_state [HttpRequest (Some example_request), Advance 30000]
     = Some example_overdue"
  by (simp add: step_def handleHTTPRequest_def check_request_def has_property_def
      get_property_def executeActionHandler_def example_actions_def example_request_def
      Object_prototype_keys_def
      example_dispatched_def example_overdue_def example_exchange_def initial_state_def)

lemma finish_status:
  "finish d p = Some (st, b) \<Longrightarrow> st = 200 \<and> (\<exists>r. b = EnvelopeBody r)"
  by (cases p) auto

lemma written_status:
  "(st, b) \<in> set (written ex) \<Longrightarrow> st = 200 \<and> (\<exists>r. b = EnvelopeBody r)"
proof (cases "finish (ex_data ex) (ex_promise ex)")
  case None
  then have "written ex = []" by (simp add: written_def)
  then show ?thesis if "(st, b) \<in> set (written ex)" using that by simp
next
  case (Some w)
  then have "written ex = [w]" by (simp add: written_def)
  with Some show ?thesis if "(st, b) \<in> set (written ex)"
    using that finish_status [of "ex_data ex" "ex_promise ex" st b] by simp
qed

lemma idle_status:
  assumes "idle_ok s c" and "(st, b) \<in> set (wire s c)"
  shows "(st = 400 \<or> st = 500) \<and> (\<exists>m. b = ErrorBody m)"
proof -
  from assms have "wire s c = [(st, b)] \<and> rejection (st, b)"
    by (auto simp: idle_ok_def split: if_splits list.splits)
  then show ?thesis by (cases b) (simp_all add: rejection_def)
qed

lemma check_request_dispatches:
  "(\<exists>h dt. check_request acts d = Inr (h, dt)) \<longleftrightarrow>
   (\<exists>dt h. d = Some dt \<and> has_property (action dt) acts
       \<and> get_property acts (action dt) = Some h)"
  by (auto simp: check_request_def split: option.splits)

lemma settle_registry [simp]: "pendingResponses (settle x outcome s) = pendingResponses s"
  by (simp add: settle_def write_response_def split: option.splits)

lemma clearTimeout_registry [simp]: "pendingResponses (clearTimeout x s) = pendingResponses s"
  by (simp add: clearTimeout_def split: option.splits)

lemma count_call_registry [simp]: "pendingResponses (count_call x s) = pendingResponses s"
  by (simp add: count_call_def split: option.splits)

lemma handler_finished_registry [simp]:
  "pendingResponses (handler_finished x s) = pendingResponses s"
  by (simp add: handler_finished_def split: option.splits)

lemma timer_fired_registry [simp]: "pendingResponses (timer_fired x s) = pendingResponses s"
  by (simp add: timer_fired_def reject_def split: option.splits)

lemma handler_finished_data:
  "exchanges s z = Some ez \<Longrightarrow>
   \<exists>ez'. exchanges (handler_finished x s) z = Some ez' \<and> ex_data ez' = ex_data ez"
  by (auto simp: handler_finished_def split: option.splits)

lemma sendResponse_registry:
  "pendingResponses (sendResponse d s) r = None \<Longrightarrow> pendingResponses s r = Some y \<Longrightarrow>
   res_request_id d = Some r"
  by (auto simp: sendResponse_def resolver_def resolve_def Let_def
      split: option.splits if_splits)

lemma handler_rejected_registry:
  "pendingResponses (handler_rejected x err s) r = None \<Longrightarrow> pendingResponses s r = Some y \<Longrightarrow>
   \<exists>ex. exchanges s x = Some ex \<and> request_id (ex_data ex) = Some r"
  by (auto simp: handler_rejected_def reject_def Let_def split: option.splits if_splits)

lemma handleHTTPRequest_registry:
  "pendingResponses (handleHTTPRequest acts d c s) r = None \<Longrightarrow> pendingResponses s r = None"
  by (auto simp: handleHTTPRequest_def write_response_def executeActionHandler_fields
      split: sum.splits option.splits if_splits)

lemma step_registry_shrinks:
  assumes st: "step acts s ev = Some s'"
    and before: "pendingResponses s r = Some y"
    and after: "pendingResponses s' r = None"
  shows "(\<exists>m. ev = Inject m \<and> res_request_id m = Some r)
         \<or> (\<exists>z e ez. ev = HandlerRejects z e \<and> exchanges s z = Some ez
               \<and> request_id (ex_data ez) = Some r)"
proof (cases ev)
  case (HttpRequest d)
  with st after have "pendingResponses (s\<lparr>next_conn := Suc (next_conn s)\<rparr>) r = None"
    by (auto simp: step_def dest: handleHTTPRequest_registry)
  with before show ?thesis by simp
next
  case (Inject m)
  with st after before show ?thesis by (auto simp: step_def dest: sendResponse_registry)
next
  case (HandlerRejects z e)
  with st obtain ez where ez: "exchanges s z = Some ez"
    and s': "s' = handler_rejected z e (handler_finished z s)"
    by (auto simp: step_def split: option.splits if_splits)
  from before have "pendingResponses (handler_finished z s) r = Some y" by simp
  from handler_rejected_registry [OF _ this] after s'
  obtain ex1 where "exchanges (handler_finished z s) z = Some ex1"
    and "request_id (ex_data ex1) = Some r" by blast
  with handler_finished_data [OF ez, of z] have "request_id (ex_data ez) = Some r" by auto
  with HandlerRejects ez show ?thesis by blast
next
  case (HandlerReturns z)
  with st after before show ?thesis
    by (auto simp: step_def split: option.splits if_splits)
next
  case (TimerFires z)
  with st after before show ?thesis
    by (auto simp: step_def split: option.splits if_splits)
next
  case (Advance n)
  with st after before show ?thesis by (auto simp: step_def)
qed

text \<open>
  What \<open>handleHTTPRequest\<close> does with an envelope that fails one of its two checks.
\<close>

lemma handleHTTPRequest_rejects:
  "(d = None \<longrightarrow>
      handleHTTPRequest acts d res s =
        write_response res (400, ErrorBody ''Invalid action provided: undefined'') s)
   \<and> (\<forall>dt. d = Some dt \<and> \<not> has_property (action dt) acts \<longrightarrow>
        handleHTTPRequest acts d res s =
          write_response res (400, ErrorBody (''Invalid action provided: '' @ action dt)) s)
   \<and> (\<forall>dt. d = Some dt \<and> has_property (action dt) acts
           \<and> get_property acts (action dt) = None \<longrightarrow>
        handleHTTPRequest acts d res s =
          write_response res
            (500, ErrorBody (''Handler not defined for action: '' @ action dt)) s)
   \<and> exchanges (write_response res w s) = exchanges s
   \<and> pendingResponses (write_response res w s) = pendingResponses s
   \<and> wire (write_response res w s) res = wire s res @ [w]"
  by (auto simp: handleHTTPRequest_def check_request_def error_response_def
      BadRequestError_def InternalServerError_def write_response_def)

text \<open>What each way of settling an exchange, and each request, puts on the wire.\<close>

lemma rejected_envelope:
  "finish d (Rejected e) =
     Some (200, EnvelopeBody
       \<lparr>res_action = action d, res_correlation_id = correlation_id d,
        res_request_id = None, res_data = JObj [],
        res_error = snd (classify e), res_status = fst (classify e)\<rparr>)"
  by simp

lemma step_handler_rejects_wire:
  assumes inv: "invariant s" and ex: "exchanges s x = Some ex"
    and pending: "ex_promise ex = Pending" and running: "ex_handler_running ex"
  shows "step acts s (HandlerRejects x e)
           = Some (handler_rejected x e (handler_finished x s))
         \<and> wire (handler_rejected x e (handler_finished x s)) x =
             [(200, EnvelopeBody
                 \<lparr>res_action = action (ex_data ex),
                  res_correlation_id = correlation_id (ex_data ex),
                  res_request_id = None, res_data = JObj [],
                  res_error = snd (classify e), res_status = fst (classify e)\<rparr>)]"
proof -
  from inv ex have w: "wire s x = written ex" by (rule invariant_wire)
  let ?ex1 = "ex\<lparr>ex_handler_running := False\<rparr>"
  let ?ex' = "settle_ex (Rejected e) (clear_ex ?ex1)"
  let ?s1 = "put_exchange x ?ex1 s"
  have st: "step acts s (HandlerRejects x e)
              = Some (handler_rejected x e (handler_finished x s))"
    using ex running by (simp add: step_def)
  have f: "handler_finished x s = ?s1" using ex w by (rule handler_finished_put)
  have r: "handler_rejected x e ?s1 =
        (put_exchange x ?ex' ?s1)
          \<lparr>pendingResponses :=
             (case request_id (ex_data ?ex1) of
                None \<Rightarrow> pendingResponses ?s1
              | Some rid \<Rightarrow>
                  if rid \<noteq> [] then (pendingResponses ?s1)(rid := None)
                  else pendingResponses ?s1)\<rparr>"
    by (rule handler_rejected_put) simp_all
  have "wire (handler_rejected x e (handler_finished x s)) x = written ?ex'"
    using f r by simp
  also have "written ?ex' =
             [(200, EnvelopeBody
                 \<lparr>res_action = action (ex_data ex),
                  res_correlation_id = correlation_id (ex_data ex),
                  res_request_id = None, res_data = JObj [],
                  res_error = snd (classify e), res_status = fst (classify e)\<rparr>)]"
    using pending by (simp add: written_def settle_ex_def clear_ex_def)
  finally show ?thesis using st by simp
qed

lemma step_timer_fires_wire:
  assumes inv: "invariant s" and ex: "exchanges s x = Some ex"
    and pending: "ex_promise ex = Pending" and due: "ex_deadline ex \<le> now s"
  shows "step acts s (TimerFires x) = Some (timer_fired x s)
         \<and> wire (timer_fired x s) x =
             [(200, EnvelopeBody
                 \<lparr>res_action = action (ex_data ex),
                  res_correlation_id = correlation_id (ex_data ex),
                  res_request_id = None, res_data = JObj [],
                  res_error = ''Timeout waiting for HTTP response on '' @ action (ex_data ex),
                  res_status = 500\<rparr>)]"
proof -
  let ?err = "InternalServerError (''Timeout waiting for HTTP response on '' @ action (ex_data ex))"
  let ?ex' = "settle_ex (Rejected ?err) (ex\<lparr>ex_timer := Fired\<rparr>)"
  from inv ex have ok: "exchange_ok s x ex" by (rule invariant_exchange)
  from inv ex have w: "wire s x = written ex" by (rule invariant_wire)
  from ok pending have armed: "ex_timer ex = Armed" by (simp add: exchange_ok_def)
  have st: "step acts s (TimerFires x) = Some (timer_fired x s)"
    using ex armed due by (simp add: step_def)
  have eq: "timer_fired x s = put_exchange x ?ex' s" using ex w by (rule timer_fired_put)
  have c: "classify ?err =
             (500, ''Timeout waiting for HTTP response on '' @ action (ex_data ex))"
    by (simp add: classify_def InternalServerError_def)
  have "wire (timer_fired x s) x = written ?ex'" using eq by simp
  also have "written ?ex' =
             [(200, EnvelopeBody
                 \<lparr>res_action = action (ex_data ex),
                  res_correlation_id = correlation_id (ex_data ex),
                  res_request_id = None, res_data = JObj [],
                  res_error = ''Timeout waiting for HTTP response on '' @ action (ex_data ex),
                  res_status = 500\<rparr>)]"
    using pending c by (simp add: written_def settle_ex_def)
  finally show ?thesis using st by simp
qed

lemma inject_wire:
  assumes inv: "invariant s" and reg: "pendingResponses s rid = Some x"
    and ex: "exchanges s x = Some ex" and pending: "ex_promise ex = Pending"
    and id: "res_request_id m = Some rid"
  shows "wire (sendResponse m s) x = [(200, EnvelopeBody m)]"
proof -
  from invariant_entry [OF inv reg] have ne: "rid \<noteq> []" by (simp add: entry_ok_def)
  from inv ex have w: "wire s x = written ex" by (rule invariant_wire)
  let ?ex' = "settle_ex (Resolved m) (clear_ex (call_ex ex))"
  have "sendResponse m s =
          (put_exchange x ?ex' s)\<lparr>pendingResponses := (pendingResponses s)(rid := None)\<rparr>"
    using id ne reg ex w by (rule sendResponse_put)
  then have "wire (sendResponse m s) x = written ?ex'" by simp
  also have "written ?ex' = [(200, EnvelopeBody m)]"
    using pending by (simp add: written_def settle_ex_def clear_ex_def call_ex_def)
  finally show ?thesis .
qed

lemma step_request_rejected:
  assumes inv: "invariant s" and c: "check_request acts d = Inl e"
  shows "\<exists>s'. step acts s (HttpRequest d) = Some s'
               \<and> wire s' (next_conn s) = [error_response e]
               \<and> exchanges s' (next_conn s) = None
               \<and> (fst (error_response e) = 400 \<or> fst (error_response e) = 500)"
proof -
  from invariant_fresh [OF inv, of "next_conn s"] have none: "exchanges s (next_conn s) = None"
    and empty: "wire s (next_conn s) = []" by simp_all
  from check_request_rejection [OF c]
  have "fst (error_response e) = 400 \<or> fst (error_response e) = 500"
    by (cases "error_response e", cases "snd (error_response e)")
      (auto simp: rejection_def)
  with c none empty show ?thesis
    by (simp add: step_def handleHTTPRequest_def write_response_def)
qed

lemma step_request_dispatched:
  assumes inv: "invariant s" and c: "check_request acts d = Inr (h, dt)"
  shows "\<exists>s' ex. step acts s (HttpRequest d) = Some s'
               \<and> exchanges s' (next_conn s) = Some ex
               \<and> ex_data ex = dt \<and> ex_handler ex = h \<and> ex_promise ex = Pending
               \<and> ex_handler_running ex
               \<and> wire s' (next_conn s) = []"
proof -
  from invariant_fresh [OF inv, of "next_conn s"] have "wire s (next_conn s) = []" by simp
  with c show ?thesis
    by (simp add: step_def handleHTTPRequest_def executeActionHandler_fields)
qed


























lemma skip_ws_punct [simp]:
  "skip_ws (CHR '','' # s) = CHR '','' # s"
  "skip_ws (CHR '']'' # s) = CHR '']'' # s"
  "skip_ws (CHR ''}'' # s) = CHR ''}'' # s"
  "skip_ws (CHR '':'' # s) = CHR '':'' # s"
  "skip_ws (CHR 0x22 # s) = CHR 0x22 # s"
  "skip_ws (CHR ''['' # s) = CHR ''['' # s"
  "skip_ws (CHR ''{'' # s) = CHR ''{'' # s"
  "skip_ws (CHR ''n'' # s) = CHR ''n'' # s"
  "skip_ws (CHR ''t'' # s) = CHR ''t'' # s"
  "skip_ws (CHR ''f'' # s) = CHR ''f'' # s"
  "skip_ws [] = []"
  by (simp_all add: skip_ws_def is_ws_def)

lemma terminated_punct [simp]:
  "terminated (CHR '','' # s)" "terminated (CHR '']'' # s)" "terminated (CHR ''}'' # s)"
  "terminated []"
  by (simp_all add: terminated_def)















section \<open>Properties of the adapter\<close>

subsection \<open>Initialisation\<close>

text \<open>
  Claim C8, as amended. \<open>init\<close> binds a port only if \<open>getReceivableActions()\<close> has at
  least one key. Without a key it returns at once: no server, no port, no error,
  whatever the port, so port 0 is then accepted. With a key and port 0 (the
  constructor's default for an absent port) it throws the \<open>InternalServerError\<close> about
  the missing port before any server is created. With a key and a non-zero port it
  creates the server and asks it to listen on that port; the port is bound exactly when
  it lies in 1..65535 and the server answers \<open>listening\<close>, and otherwise \<open>init\<close> rejects
  with the error of \<open>listen\<close> and no port is bound.
\<close>

theorem init_binds_port_iff_receivable:
  "(bound_port (init acts port outcome) = Some p \<longleftrightarrow>
      Object_keys acts \<noteq> [] \<and> 0 < port \<and> port \<le> 65535 \<and> outcome = Listening \<and> p = port)
   \<and> (Object_keys acts = [] \<longrightarrow>
        init acts port outcome =
          \<lparr>server_created = False, bound_port = None, thrown_error = None\<rparr>)
   \<and> (Object_keys acts \<noteq> [] \<and> port = 0 \<longrightarrow>
        init acts port outcome =
          \<lparr>server_created = False, bound_port = None,
           thrown_error =
             Some (InternalServerError
                     ''HTTP transport needs a port in order to consume (receive) actions'')\<rparr>)
   \<and> (Object_keys acts \<noteq> [] \<and> port \<noteq> 0 \<and> (port < 0 \<or> 65535 < port) \<longrightarrow>
        init acts port outcome =
          \<lparr>server_created = True, bound_port = None,
           thrown_error = Some ERR_SOCKET_BAD_PORT\<rparr>)
   \<and> (\<forall>err. Object_keys acts \<noteq> [] \<and> 0 < port \<and> port \<le> 65535
           \<and> outcome = ListenError err \<longrightarrow>
        init acts port outcome =
          \<lparr>server_created = True, bound_port = None, thrown_error = Some err\<rparr>)
   \<and> (Object_keys acts \<noteq> [] \<and> 0 < port \<and> port \<le> 65535 \<and> outcome = Listening \<longrightarrow>
        init acts port outcome =
          \<lparr>server_created = True, bound_port = Some port, thrown_error = None\<rparr>)
   \<and> (Object_keys acts = [] \<longleftrightarrow> acts = [])"
  by (cases outcome) (auto simp: init_def Object_keys_def)

theorem init_binds_port_iff_receivable_witness:
  "Object_keys [] = []
   \<and> init [] 0 Listening = \<lparr>server_created = False, bound_port = None, thrown_error = None\<rparr>
   \<and> Object_keys example_actions \<noteq> []
   \<and> init example_actions 0 Listening =
       \<lparr>server_created = False, bound_port = None,
        thrown_error =
          Some (InternalServerError
                  ''HTTP transport needs a port in order to consume (receive) actions'')\<rparr>
   \<and> init example_actions 8080 Listening =
       \<lparr>server_created = True, bound_port = Some 8080, thrown_error = None\<rparr>
   \<and> init example_actions 8080 (ListenError (Error ''listen EADDRINUSE'')) =
       \<lparr>server_created = True, bound_port = None,
        thrown_error = Some (Error ''listen EADDRINUSE'')\<rparr>"
  using init_binds_port_iff_receivable [of "[]" 0 Listening]
    init_binds_port_iff_receivable [of example_actions 0 Listening]
    init_binds_port_iff_receivable [of example_actions 8080 Listening]
    init_binds_port_iff_receivable [of example_actions 8080 "ListenError (Error ''listen EADDRINUSE'')"]
  by (simp add: example_actions_def Object_keys_def)

text \<open>
  Claim C8 as stated says that the port is bound whenever a receivable action exists.
  In the sample configuration an action exists and a port is configured, yet nothing is
  bound: port 65536 makes \<open>listen\<close> throw, and on port 8080 the server can answer with
  an \<open>error\<close> event.
\<close>

theorem init_binds_nothing_when_listen_fails:
  "Object_keys example_actions \<noteq> []
   \<and> bound_port (init example_actions 65536 Listening) = None
   \<and> thrown_error (init example_actions 65536 Listening) = Some ERR_SOCKET_BAD_PORT
   \<and> bound_port (init example_actions 8080 (ListenError (Error ''listen EADDRINUSE''))) = None
   \<and> thrown_error (init example_actions 8080 (ListenError (Error ''listen EADDRINUSE'')))
       = Some (Error ''listen EADDRINUSE'')"
  by (simp add: init_def example_actions_def Object_keys_def)

subsection \<open>Outbound sender\<close>

text \<open>
  Claim C7. \<open>send\<close> sets \<open>request_id\<close> to the identifier from \<open>uuidv4()\<close> when
  the envelope has none (or an empty one) and leaves the envelope alone otherwise. It
  throws a \<open>BadRequestError\<close>, code 400, when the action is not among the sendable
  actions, and when the \<open>host\<close> or \<open>port\<close> option is falsy, which an option
  missing from the object is. \<open>sendHTTPRequest\<close> is reached only with a sendable
  action and both options present, so a rejected \<open>send\<close> makes no wire call.
\<close>

theorem send_validates:
  "(\<not> has_request_id (request_id d) \<longrightarrow>
      fst (send sendable uuid d opts timeout) = d\<lparr>request_id := Some uuid\<rparr>)
   \<and> (has_request_id (request_id d) \<longrightarrow> fst (send sendable uuid d opts timeout) = d)
   \<and> (action d \<notin> set sendable \<longrightarrow>
        snd (send sendable uuid d opts timeout) =
          Inl (BadRequestError (''Invalid action provided: '' @ action d)))
   \<and> (action d \<in> set sendable \<and>
        (\<not> truthy (option_value opts ''host'') \<or> \<not> truthy (option_value opts ''port'')) \<longrightarrow>
        snd (send sendable uuid d opts timeout) =
          Inl (BadRequestError ''Host and/or port missing in transport options''))
   \<and> ((\<exists>c. snd (send sendable uuid d opts timeout) = Inr c) \<longrightarrow>
        action d \<in> set sendable \<and> opts ''host'' \<noteq> None \<and> opts ''port'' \<noteq> None)
   \<and> code (BadRequestError m) = 400"
  by (auto simp: send_def Let_def BadRequestError_def option_value_def split: option.splits)

theorem send_validates_witness:
  "request_id (example_request\<lparr>request_id := None\<rparr>) = None
   \<and> fst (send [''ping''] ''u1'' (example_request\<lparr>request_id := None\<rparr>)
            [''host'' \<mapsto> JStr ''peer'', ''port'' \<mapsto> JNum 8080] None)
       = example_request\<lparr>request_id := Some ''u1''\<rparr>
   \<and> snd (send [''pong''] ''u1'' example_request
            [''host'' \<mapsto> JStr ''peer'', ''port'' \<mapsto> JNum 8080] None)
       = Inl (BadRequestError ''Invalid action provided: ping'')
   \<and> snd (send [''ping''] ''u1'' example_request [''port'' \<mapsto> JNum 8080] None)
       = Inl (BadRequestError ''Host and/or port missing in transport options'')
   \<and> snd (send [''ping''] ''u1'' example_request [''host'' \<mapsto> JStr ''peer''] None)
       = Inl (BadRequestError ''Host and/or port missing in transport options'')"
  using send_validates [of "example_request\<lparr>request_id := None\<rparr>" "[''ping'']" "''u1''"
      "[''host'' \<mapsto> JStr ''peer'', ''port'' \<mapsto> JNum 8080]" None]
    send_validates [of example_request "[''pong'']" "''u1''"
      "[''host'' \<mapsto> JStr ''peer'', ''port'' \<mapsto> JNum 8080]" None]
    send_validates [of example_request "[''ping'']" "''u1''" "[''port'' \<mapsto> JNum 8080]" None]
    send_validates [of example_request "[''ping'']" "''u1''" "[''host'' \<mapsto> JStr ''peer'']" None]
  by (simp add: example_request_def has_request_id_def option_value_def)

text \<open>
  Claim C10. \<open>send\<close> writes the generated \<open>request_id\<close> into the caller's envelope
  before it validates: when the envelope came without \<open>request_id\<close> and \<open>send\<close>
  throws, the envelope afterwards carries the generated id and so differs from the one
  passed in.
\<close>

theorem send_mutates_before_validation:
  assumes "request_id d = None"
    and "snd (send sendable uuid d opts timeout) = Inl e"
  shows "request_id (fst (send sendable uuid d opts timeout)) = Some uuid
         \<and> fst (send sendable uuid d opts timeout) = d\<lparr>request_id := Some uuid\<rparr>
         \<and> fst (send sendable uuid d opts timeout) \<noteq> d"
proof -
  from assms(1) have f: "fst (send sendable uuid d opts timeout) = d\<lparr>request_id := Some uuid\<rparr>"
    by (simp add: send_def Let_def has_request_id_def)
  have "request_id (d\<lparr>request_id := Some uuid\<rparr>) \<noteq> request_id d"
    using assms(1) by simp
  then have "d\<lparr>request_id := Some uuid\<rparr> \<noteq> d" by metis
  with f show ?thesis by simp
qed

theorem send_mutates_before_validation_witness:
  "request_id (example_request\<lparr>request_id := None\<rparr>) = None
   \<and> snd (send [''pong''] ''u1'' (example_request\<lparr>request_id := None\<rparr>) Map.empty None)
       = Inl (BadRequestError ''Invalid action provided: ping'')
   \<and> request_id (fst (send [''pong''] ''u1'' (example_request\<lparr>request_id := None\<rparr>)
                        Map.empty None)) = Some ''u1''"
proof -
  have a: "request_id (example_request\<lparr>request_id := None\<rparr>) = None" by simp
  have b: "snd (send [''pong''] ''u1'' (example_request\<lparr>request_id := None\<rparr>) Map.empty None)
       = Inl (BadRequestError ''Invalid action provided: ping'')"
    by (simp add: send_def Let_def has_request_id_def example_request_def)
  from send_mutates_before_validation [OF a b] a b show ?thesis by simp
qed

subsection \<open>Rejections before dispatch\<close>

text \<open>
  Claim C6 holds for the names that the \<open>in\<close> operator does not find, but not for
  every action outside the receivable set: the name of a property of
  \<open>Object.prototype\<close>, such as \<open>toString\<close>, is no key of the receivable actions, yet
  \<open>data.action in actionsToConsume\<close> is true and \<open>actionsToConsume[data.action]\<close> is the
  inherited function. \<open>handleHTTPRequest\<close> then throws nothing: it dispatches, so that
  an exchange is created, its request id registered and the inherited value called as
  the handler, and nothing is written on the connection at that point. When the call
  has returned and 30 seconds have passed, the connection is answered under wire
  status 200 with the timeout envelope.
\<close>

theorem inherited_action_is_dispatched:
  "''toString'' \<notin> set (Object_keys example_actions)
   \<and> handleHTTPRequest example_actions (Some (example_request\<lparr>action := ''toString''\<rparr>)) 0
         initial_state
       = executeActionHandler (Inherited ''toString'')
           (example_request\<lparr>action := ''toString''\<rparr>) 0 initial_state
   \<and> map_option ex_handler
        (exchanges
           (handleHTTPRequest example_actions
              (Some (example_request\<lparr>action := ''toString''\<rparr>)) 0 initial_state) 0)
       = Some (Inherited ''toString'')
   \<and> pendingResponses
        (handleHTTPRequest example_actions
           (Some (example_request\<lparr>action := ''toString''\<rparr>)) 0 initial_state) ''r1''
       = Some 0
   \<and> wire (handleHTTPRequest example_actions
              (Some (example_request\<lparr>action := ''toString''\<rparr>)) 0 initial_state) 0
       = []
   \<and> map_option (\<lambda>s. wire s 0)
        (run example_actions initial_state
           [HttpRequest (Some (example_request\<lparr>action := ''toString''\<rparr>)),
            HandlerReturns 0, Advance 30000, TimerFires 0])
       = Some [(200, EnvelopeBody
                  \<lparr>res_action = ''toString'', res_correlation_id = ''c1'',
                   res_request_id = None, res_data = JObj [],
                   res_error = ''Timeout waiting for HTTP response on toString'',
                   res_status = 500\<rparr>)]"
  by (simp add: step_def handleHTTPRequest_def check_request_def has_property_def
      get_property_def Object_prototype_keys_def Object_keys_def executeActionHandler_def
      handler_finished_def timer_fired_def reject_def settle_def write_response_def
      classify_def InternalServerError_def
      example_actions_def example_request_def initial_state_def)

subsection \<open>Error classification\<close>




subsection \<open>Wire status\<close>

text \<open>
  Claim C4. In every state the events can lead to: whatever is written on the
  connection of a dispatched request (one that has an exchange) has wire status 200
  and carries an envelope, and a write with another status is on a connection without
  exchange, has status 400 or 500 and a bare \<open>{error}\<close> body. A request that fails one
  of the two checks of \<open>handleHTTPRequest\<close> is answered at once with that error's
  status, 400 or 500, and gets no exchange; a request that passes them (the envelope is
  not null, \<open>in\<close> finds its action, a handler is bound) gets a pending exchange and
  no answer yet. Each way of settling a pending exchange then writes status 200: a
  handler rejecting with \<open>e\<close> writes the envelope whose logical status is the one
  computed for \<open>e\<close> (400 for a \<open>ZodError\<close>, any code \<open>c\<close> for a \<open>BaseError\<close>, 500 for a
  value that is no \<open>Error\<close>), the timer writes the envelope of logical status 500,
  and an injection writes the injected envelope.
\<close>

theorem wire_status_200_iff_dispatched:
  assumes reach: "run acts initial_state evs = Some s"
  shows "(\<forall>c st b. (st, b) \<in> set (wire s c) \<longrightarrow>
            (exchanges s c \<noteq> None \<longrightarrow> st = 200 \<and> (\<exists>r. b = EnvelopeBody r))
            \<and> (exchanges s c = None \<longrightarrow> (st = 400 \<or> st = 500) \<and> (\<exists>m. b = ErrorBody m))
            \<and> (st \<noteq> 200 \<longrightarrow> exchanges s c = None))
         \<and> (\<forall>d e. check_request acts d = Inl e \<longrightarrow>
              (\<exists>s'. step acts s (HttpRequest d) = Some s'
                 \<and> wire s' (next_conn s) = [error_response e]
                 \<and> exchanges s' (next_conn s) = None
                 \<and> (fst (error_response e) = 400 \<or> fst (error_response e) = 500)))
         \<and> (\<forall>d h dt. check_request acts d = Inr (h, dt) \<longrightarrow>
              (\<exists>s' ex. step acts s (HttpRequest d) = Some s'
                 \<and> exchanges s' (next_conn s) = Some ex
                 \<and> ex_data ex = dt \<and> ex_handler ex = h \<and> ex_promise ex = Pending
                 \<and> ex_handler_running ex
                 \<and> wire s' (next_conn s) = []))
         \<and> (\<forall>x ex e. exchanges s x = Some ex \<and> ex_promise ex = Pending
                \<and> ex_handler_running ex \<longrightarrow>
              (\<exists>s'. step acts s (HandlerRejects x e) = Some s'
                 \<and> wire s' x =
                     [(200, EnvelopeBody
                         \<lparr>res_action = action (ex_data ex),
                          res_correlation_id = correlation_id (ex_data ex),
                          res_request_id = None, res_data = JObj [],
                          res_error = snd (classify e), res_status = fst (classify e)\<rparr>)]))
         \<and> (\<forall>x ex. exchanges s x = Some ex \<and> ex_promise ex = Pending
                \<and> ex_deadline ex \<le> now s \<longrightarrow>
              (\<exists>s'. step acts s (TimerFires x) = Some s'
                 \<and> wire s' x =
                     [(200, EnvelopeBody
                         \<lparr>res_action = action (ex_data ex),
                          res_correlation_id = correlation_id (ex_data ex),
                          res_request_id = None, res_data = JObj [],
                          res_error = ''Timeout waiting for HTTP response on ''
                                        @ action (ex_data ex),
                          res_status = 500\<rparr>)]))
         \<and> (\<forall>x ex m rid. pendingResponses s rid = Some x \<and> exchanges s x = Some ex
                \<and> ex_promise ex = Pending \<and> res_request_id m = Some rid \<longrightarrow>
              (\<exists>s'. step acts s (Inject m) = Some s'
                 \<and> wire s' x = [(200, EnvelopeBody m)]))
         \<and> (\<forall>ms. fst (classify (ZodError ms)) = 400)
         \<and> (\<forall>c m. fst (classify (BaseError c m)) = c)
         \<and> (\<forall>v. fst (classify (NonError v)) = 500)
         \<and> (\<forall>d. (\<exists>h dt. check_request acts d = Inr (h, dt)) \<longleftrightarrow>
               (\<exists>dt h. d = Some dt \<and> has_property (action dt) acts
                  \<and> get_property acts (action dt) = Some h))"
proof -
  from reach have inv: "invariant s" by (rule invariant_reachable)
  have a: "\<forall>c st b. (st, b) \<in> set (wire s c) \<longrightarrow>
            (exchanges s c \<noteq> None \<longrightarrow> st = 200 \<and> (\<exists>r. b = EnvelopeBody r))
            \<and> (exchanges s c = None \<longrightarrow> (st = 400 \<or> st = 500) \<and> (\<exists>m. b = ErrorBody m))
            \<and> (st \<noteq> 200 \<longrightarrow> exchanges s c = None)"
  proof (intro allI impI)
    fix c st b
    assume mem: "(st, b) \<in> set (wire s c)"
    show "(exchanges s c \<noteq> None \<longrightarrow> st = 200 \<and> (\<exists>r. b = EnvelopeBody r))
            \<and> (exchanges s c = None \<longrightarrow> (st = 400 \<or> st = 500) \<and> (\<exists>m. b = ErrorBody m))
            \<and> (st \<noteq> 200 \<longrightarrow> exchanges s c = None)"
    proof (cases "exchanges s c")
      case None
      with inv have "idle_ok s c" by (simp add: invariant_def)
      from idle_status [OF this mem] None show ?thesis by simp
    next
      case (Some ex)
      with inv have "wire s c = written ex" by (rule invariant_wire)
      with mem have "st = 200 \<and> (\<exists>r. b = EnvelopeBody r)" by (simp add: written_status)
      with Some show ?thesis by simp
    qed
  qed
  have rq1: "\<forall>d e. check_request acts d = Inl e \<longrightarrow>
              (\<exists>s'. step acts s (HttpRequest d) = Some s'
                 \<and> wire s' (next_conn s) = [error_response e]
                 \<and> exchanges s' (next_conn s) = None
                 \<and> (fst (error_response e) = 400 \<or> fst (error_response e) = 500))"
    by (intro allI impI) (rule step_request_rejected [OF inv])
  have rq2: "\<forall>d h dt. check_request acts d = Inr (h, dt) \<longrightarrow>
              (\<exists>s' ex. step acts s (HttpRequest d) = Some s'
                 \<and> exchanges s' (next_conn s) = Some ex
                 \<and> ex_data ex = dt \<and> ex_handler ex = h \<and> ex_promise ex = Pending
                 \<and> ex_handler_running ex
                 \<and> wire s' (next_conn s) = [])"
    by (intro allI impI) (rule step_request_dispatched [OF inv])
  have hr: "\<forall>x ex e. exchanges s x = Some ex \<and> ex_promise ex = Pending
                \<and> ex_handler_running ex \<longrightarrow>
              (\<exists>s'. step acts s (HandlerRejects x e) = Some s'
                 \<and> wire s' x =
                     [(200, EnvelopeBody
                         \<lparr>res_action = action (ex_data ex),
                          res_correlation_id = correlation_id (ex_data ex),
                          res_request_id = None, res_data = JObj [],
                          res_error = snd (classify e), res_status = fst (classify e)\<rparr>)])"
  proof (intro allI impI, elim conjE)
    fix x ex e
    assume "exchanges s x = Some ex" "ex_promise ex = Pending" "ex_handler_running ex"
    from step_handler_rejects_wire [OF inv this, of acts e]
    show "\<exists>s'. step acts s (HandlerRejects x e) = Some s'
                 \<and> wire s' x =
                     [(200, EnvelopeBody
                         \<lparr>res_action = action (ex_data ex),
                          res_correlation_id = correlation_id (ex_data ex),
                          res_request_id = None, res_data = JObj [],
                          res_error = snd (classify e), res_status = fst (classify e)\<rparr>)]"
      by (intro exI [of _ "handler_rejected x e (handler_finished x s)"])
  qed
  have tf: "\<forall>x ex. exchanges s x = Some ex \<and> ex_promise ex = Pending
                \<and> ex_deadline ex \<le> now s \<longrightarrow>
              (\<exists>s'. step acts s (TimerFires x) = Some s'
                 \<and> wire s' x =
                     [(200, EnvelopeBody
                         \<lparr>res_action = action (ex_data ex),
                          res_correlation_id = correlation_id (ex_data ex),
                          res_request_id = None, res_data = JObj [],
                          res_error = ''Timeout waiting for HTTP response on ''
                                        @ action (ex_data ex),
                          res_status = 500\<rparr>)])"
  proof (intro allI impI, elim conjE)
    fix x ex
    assume "exchanges s x = Some ex" "ex_promise ex = Pending" "ex_deadline ex \<le> now s"
    from step_timer_fires_wire [OF inv this, of acts]
    show "\<exists>s'. step acts s (TimerFires x) = Some s'
                 \<and> wire s' x =
                     [(200, EnvelopeBody
                         \<lparr>res_action = action (ex_data ex),
                          res_correlation_id = correlation_id (ex_data ex),
                          res_request_id = None, res_data = JObj [],
                          res_error = ''Timeout waiting for HTTP response on ''
                                        @ action (ex_data ex),
                          res_status = 500\<rparr>)]"
      by (intro exI [of _ "timer_fired x s"])
  qed
  have ij: "\<forall>x ex m rid. pendingResponses s rid = Some x \<and> exchanges s x = Some ex
                \<and> ex_promise ex = Pending \<and> res_request_id m = Some rid \<longrightarrow>
              (\<exists>s'. step acts s (Inject m) = Some s'
                 \<and> wire s' x = [(200, EnvelopeBody m)])"
  proof (intro allI impI, elim conjE)
    fix x ex rid and m :: response_dto
    assume "pendingResponses s rid = Some x" "exchanges s x = Some ex"
      "ex_promise ex = Pending" "res_request_id m = Some rid"
    from inject_wire [OF inv this]
    show "\<exists>s'. step acts s (Inject m) = Some s' \<and> wire s' x = [(200, EnvelopeBody m)]"
      by (simp add: step_def)
  qed
  have c1: "\<forall>ms. fst (classify (ZodError ms)) = 400" by (simp add: classify_def)
  have c2: "\<forall>c m. fst (classify (BaseError c m)) = c" by (simp add: classify_def)
  have c3: "\<forall>v. fst (classify (NonError v)) = 500" by (simp add: classify_def)
  have ch: "\<forall>d. (\<exists>h dt. check_request acts d = Inr (h, dt)) \<longleftrightarrow>
               (\<exists>dt h. d = Some dt \<and> has_property (action dt) acts
                  \<and> get_property acts (action dt) = Some h)"
    by (intro allI) (rule check_request_dispatches)
  from a rq1 rq2 hr tf ij c1 c2 c3 ch show ?thesis by (intro conjI)
qed

theorem wire_status_200_iff_dispatched_witness:
  "run example_actions initial_state [HttpRequest (Some example_request)]
     = Some example_dispatched
   \<and> exchanges example_dispatched 0 = Some example_exchange
   \<and> ex_promise example_exchange = Pending \<and> ex_handler_running example_exchange
   \<and> check_request example_actions None
       = Inl (BadRequestError ''Invalid action provided: undefined'')
   \<and> (\<exists>s'. step example_actions example_dispatched (HandlerRejects 0 (BaseError 404 ''gone''))
             = Some s'
          \<and> wire s' 0 =
              [(200, EnvelopeBody
                  \<lparr>res_action = ''ping'', res_correlation_id = ''c1'', res_request_id = None,
                   res_data = JObj [], res_error = ''gone'', res_status = 404\<rparr>)])
   \<and> (\<exists>s'. step example_actions example_dispatched (HandlerRejects 0 (ZodError [''bad id'']))
             = Some s'
          \<and> wire s' 0 =
              [(200, EnvelopeBody
                  \<lparr>res_action = ''ping'', res_correlation_id = ''c1'', res_request_id = None,
                   res_data = JObj [], res_error = ''bad id'', res_status = 400\<rparr>)])
   \<and> (\<exists>s'. step example_actions example_dispatched (HttpRequest None) = Some s'
          \<and> wire s' 1 = [(400, ErrorBody ''Invalid action provided: undefined'')]
          \<and> exchanges s' 1 = None)"
proof -
  note T = wire_status_200_iff_dispatched [OF example_dispatched_run]
  have b: "exchanges example_dispatched 0 = Some example_exchange"
    by (simp add: example_dispatched_def)
  have c: "ex_promise example_exchange = Pending" "ex_handler_running example_exchange"
    by (simp_all add: example_exchange_def)
  have d: "action (ex_data example_exchange) = ''ping''"
    "correlation_id (ex_data example_exchange) = ''c1''"
    "classify (BaseError 404 ''gone'') = (404, ''gone'')"
    "classify (ZodError [''bad id'']) = (400, ''bad id'')"
    "next_conn example_dispatched = 1"
    "error_response (BadRequestError ''Invalid action provided: undefined'')
       = (400, ErrorBody ''Invalid action provided: undefined'')"
    by (simp_all add: example_exchange_def example_request_def classify_def
        example_dispatched_def error_response_def BadRequestError_def)
  have k: "check_request example_actions None
       = Inl (BadRequestError ''Invalid action provided: undefined'')"
    by (simp add: check_request_def)
  from T [THEN conjunct2, THEN conjunct2, THEN conjunct2, THEN conjunct1]
  have hr: "\<forall>x ex e. exchanges example_dispatched x = Some ex \<and> ex_promise ex = Pending
                \<and> ex_handler_running ex \<longrightarrow>
              (\<exists>s'. step example_actions example_dispatched (HandlerRejects x e) = Some s'
                 \<and> wire s' x =
                     [(200, EnvelopeBody
                         \<lparr>res_action = action (ex_data ex),
                          res_correlation_id = correlation_id (ex_data ex),
                          res_request_id = None, res_data = JObj [],
                          res_error = snd (classify e), res_status = fst (classify e)\<rparr>)])"
    .
  from T [THEN conjunct2, THEN conjunct1]
  have rq: "\<forall>d e. check_request example_actions d = Inl e \<longrightarrow>
              (\<exists>s'. step example_actions example_dispatched (HttpRequest d) = Some s'
                 \<and> wire s' (next_conn example_dispatched) = [error_response e]
                 \<and> exchanges s' (next_conn example_dispatched) = None
                 \<and> (fst (error_response e) = 400 \<or> fst (error_response e) = 500))"
    .
  from hr [rule_format, of 0 example_exchange "BaseError 404 ''gone''"] b c d
  have w1: "\<exists>s'. step example_actions example_dispatched (HandlerRejects 0 (BaseError 404 ''gone''))
             = Some s'
          \<and> wire s' 0 =
              [(200, EnvelopeBody
                  \<lparr>res_action = ''ping'', res_correlation_id = ''c1'', res_request_id = None,
                   res_data = JObj [], res_error = ''gone'', res_status = 404\<rparr>)]"
    by simp
  from hr [rule_format, of 0 example_exchange "ZodError [''bad id'']"] b c d
  have w2: "\<exists>s'. step example_actions example_dispatched (HandlerRejects 0 (ZodError [''bad id'']))
             = Some s'
          \<and> wire s' 0 =
              [(200, EnvelopeBody
                  \<lparr>res_action = ''ping'', res_correlation_id = ''c1'', res_request_id = None,
                   res_data = JObj [], res_error = ''bad id'', res_status = 400\<rparr>)]"
    by simp
  from rq [rule_format, OF k] d
  have w3: "\<exists>s'. step example_actions example_dispatched (HttpRequest None) = Some s'
          \<and> wire s' 1 = [(400, ErrorBody ''Invalid action provided: undefined'')]
          \<and> exchanges s' 1 = None"
    by auto
  from example_dispatched_run b c k w1 w2 w3 show ?thesis by (simp del: run.simps)
qed

subsection \<open>Handler rejection\<close>

text \<open>
  Claim C3. In a reachable state, when the handler of an exchange rejects (or throws)
  while the promise of the exchange is pending, the timer, which is then still started,
  is cancelled, no entry is left in \<open>pendingResponses\<close> under the request id of the
  exchange, the promise is rejected with that error, and the one response written is
  the envelope made from that error.
\<close>

theorem handler_rejection_settles:
  assumes reach: "run acts initial_state evs = Some s"
    and ex: "exchanges s x = Some ex"
    and pending: "ex_promise ex = Pending"
    and running: "ex_handler_running ex"
  shows "\<exists>s' ex'.
           step acts s (HandlerRejects x err) = Some s'
           \<and> exchanges s' x = Some ex'
           \<and> ex_timer ex = Armed \<and> ex_timer ex' = Cancelled
           \<and> ex_promise ex' = Rejected err
           \<and> (\<forall>rid. request_id (ex_data ex) = Some rid \<longrightarrow> pendingResponses s' rid = None)
           \<and> wire s' x =
               [(200, EnvelopeBody
                   \<lparr>res_action = action (ex_data ex),
                    res_correlation_id = correlation_id (ex_data ex),
                    res_request_id = None,
                    res_data = JObj [],
                    res_error = snd (classify err),
                    res_status = fst (classify err)\<rparr>)]"
proof -
  from reach have inv: "invariant s" by (rule invariant_reachable)
  from inv ex have ok: "exchange_ok s x ex" by (rule invariant_exchange)
  from inv ex have w: "wire s x = written ex" by (rule invariant_wire)
  from ok pending have armed: "ex_timer ex = Armed" by (simp add: exchange_ok_def)
  let ?ex1 = "ex\<lparr>ex_handler_running := False\<rparr>"
  let ?ex' = "settle_ex (Rejected err) (clear_ex ?ex1)"
  let ?s1 = "put_exchange x ?ex1 s"
  let ?s' = "handler_rejected x err (handler_finished x s)"
  have st: "step acts s (HandlerRejects x err) = Some ?s'"
    using ex running by (simp add: step_def)
  have f: "handler_finished x s = ?s1" using ex w by (rule handler_finished_put)
  have r: "handler_rejected x err ?s1 =
        (put_exchange x ?ex' ?s1)
          \<lparr>pendingResponses :=
             (case request_id (ex_data ?ex1) of
                None \<Rightarrow> pendingResponses ?s1
              | Some rid \<Rightarrow>
                  if rid \<noteq> [] then (pendingResponses ?s1)(rid := None)
                  else pendingResponses ?s1)\<rparr>"
    by (rule handler_rejected_put) simp_all
  have e': "exchanges ?s' x = Some ?ex'" using f r by simp
  have t: "ex_timer ?ex' = Cancelled" "ex_promise ?ex' = Rejected err"
    using armed pending by (simp_all add: settle_ex_def clear_ex_def)
  have wr: "wire ?s' x = written ?ex'" using f r by simp
  have wv: "written ?ex' =
               [(200, EnvelopeBody
                   \<lparr>res_action = action (ex_data ex),
                    res_correlation_id = correlation_id (ex_data ex),
                    res_request_id = None,
                    res_data = JObj [],
                    res_error = snd (classify err),
                    res_status = fst (classify err)\<rparr>)]"
    using armed pending by (simp add: written_def settle_ex_def clear_ex_def)
  have reg: "pendingResponses ?s' rid = None" if id: "request_id (ex_data ex) = Some rid" for rid
  proof (cases "rid = []")
    case True
    have "pendingResponses s [] = None"
    proof (cases "pendingResponses s []")
      case (Some y)
      with inv have "entry_ok s [] y" by (rule invariant_entry)
      then show ?thesis by (simp add: entry_ok_def)
    qed simp
    with True id f r show ?thesis by simp
  next
    case False
    with id f r show ?thesis by simp
  qed
  from st e' armed t reg wr wv show ?thesis by auto
qed

theorem handler_rejection_settles_witness:
  "run example_actions initial_state [HttpRequest (Some example_request)]
     = Some example_dispatched
   \<and> exchanges example_dispatched 0 = Some example_exchange
   \<and> ex_promise example_exchange = Pending
   \<and> ex_handler_running example_exchange
   \<and> (\<exists>s' ex'.
         step example_actions example_dispatched (HandlerRejects 0 (BaseError 404 ''gone''))
           = Some s'
         \<and> exchanges s' 0 = Some ex'
         \<and> ex_timer ex' = Cancelled
         \<and> ex_promise ex' = Rejected (BaseError 404 ''gone'')
         \<and> pendingResponses s' ''r1'' = None
         \<and> wire s' 0 =
             [(200, EnvelopeBody
                 \<lparr>res_action = ''ping'', res_correlation_id = ''c1'', res_request_id = None,
                  res_data = JObj [], res_error = ''gone'', res_status = 404\<rparr>)])"
proof -
  have b: "exchanges example_dispatched 0 = Some example_exchange"
    by (simp add: example_dispatched_def)
  have c: "ex_promise example_exchange = Pending" "ex_handler_running example_exchange"
    by (simp_all add: example_exchange_def)
  have d: "request_id (ex_data example_exchange) = Some ''r1''"
    "action (ex_data example_exchange) = ''ping''"
    "correlation_id (ex_data example_exchange) = ''c1''"
    "classify (BaseError 404 ''gone'') = (404, ''gone'')"
    by (simp_all add: example_exchange_def example_request_def classify_def)
  from handler_rejection_settles [OF example_dispatched_run b c, of "BaseError 404 ''gone''"]
  obtain s' ex' where
    "step example_actions example_dispatched (HandlerRejects 0 (BaseError 404 ''gone''))
       = Some s'"
    "exchanges s' 0 = Some ex'" "ex_timer ex' = Cancelled"
    "ex_promise ex' = Rejected (BaseError 404 ''gone'')"
    "\<forall>rid. request_id (ex_data example_exchange) = Some rid \<longrightarrow> pendingResponses s' rid = None"
    "wire s' 0 =
               [(200, EnvelopeBody
                   \<lparr>res_action = action (ex_data example_exchange),
                    res_correlation_id = correlation_id (ex_data example_exchange),
                    res_request_id = None,
                    res_data = JObj [],
                    res_error = snd (classify (BaseError 404 ''gone'')),
                    res_status = fst (classify (BaseError 404 ''gone''))\<rparr>)]"
    by blast
  with d example_dispatched_run b c show ?thesis by auto
qed

subsection \<open>Timeout\<close>

text \<open>
  Claim C2, as amended. Take a reachable state and an exchange whose promise is
  still pending (neither an injection nor a handler rejection has settled it). Its
  timer was set for 30000 ms after the dispatch and cannot fire earlier; once that time
  has passed it fires. Firing rejects the promise with the timeout error, so that
  exactly one response is written on the connection, the envelope with status 500 and
  the message \<open>"Timeout waiting for HTTP response on <action>"\<close>; whatever happens
  afterwards, the connection holds that one response and the timer does not fire again.
  The timer leaves \<open>pendingResponses\<close> as it is. An entry of \<open>pendingResponses\<close>
  disappears only through \<open>sendResponse\<close> with its request id or through the rejection
  of the handler of an exchange with that request id.
\<close>

theorem timeout_settles_once:
  assumes reach: "run acts initial_state evs = Some s"
    and ex: "exchanges s x = Some ex"
    and pending: "ex_promise ex = Pending"
  shows "(now s < ex_deadline ex \<longrightarrow> step acts s (TimerFires x) = None)
         \<and> (ex_deadline ex \<le> now s \<longrightarrow> step acts s (TimerFires x) = Some (timer_fired x s))
         \<and> wire s x = []
         \<and> wire (timer_fired x s) x =
             [(200, EnvelopeBody
                 \<lparr>res_action = action (ex_data ex),
                  res_correlation_id = correlation_id (ex_data ex),
                  res_request_id = None,
                  res_data = JObj [],
                  res_error = ''Timeout waiting for HTTP response on '' @ action (ex_data ex),
                  res_status = 500\<rparr>)]
         \<and> pendingResponses (timer_fired x s) = pendingResponses s
         \<and> (\<forall>evs' s'. run acts (timer_fired x s) evs' = Some s' \<longrightarrow>
               wire s' x = wire (timer_fired x s) x \<and> step acts s' (TimerFires x) = None)
         \<and> (\<forall>ev s' r y. step acts s ev = Some s' \<and> pendingResponses s r = Some y
                 \<and> pendingResponses s' r = None \<longrightarrow>
               (\<exists>m. ev = Inject m \<and> res_request_id m = Some r)
               \<or> (\<exists>z e ez. ev = HandlerRejects z e \<and> exchanges s z = Some ez
                     \<and> request_id (ex_data ez) = Some r))
         \<and> (\<forall>h d c s0. map_option ex_deadline (exchanges (executeActionHandler h d c s0) c)
               = Some (now s0 + 30000))"
proof -
  let ?err = "InternalServerError (''Timeout waiting for HTTP response on '' @ action (ex_data ex))"
  let ?ex' = "settle_ex (Rejected ?err) (ex\<lparr>ex_timer := Fired\<rparr>)"
  let ?t = "timer_fired x s"
  from reach have inv: "invariant s" by (rule invariant_reachable)
  from inv ex have ok: "exchange_ok s x ex" by (rule invariant_exchange)
  from inv ex have w: "wire s x = written ex" by (rule invariant_wire)
  from ok pending have armed: "ex_timer ex = Armed" by (simp add: exchange_ok_def)
  have early: "now s < ex_deadline ex \<longrightarrow> step acts s (TimerFires x) = None"
    using ex by (simp add: step_def)
  have due: "ex_deadline ex \<le> now s \<longrightarrow> step acts s (TimerFires x) = Some ?t"
    using ex armed by (simp add: step_def)
  have w0: "wire s x = []" using w pending by (simp add: written_def)
  have eq: "?t = put_exchange x ?ex' s" using ex w by (rule timer_fired_put)
  have ex'v: "ex_promise ?ex' = Rejected ?err" "ex_timer ?ex' = Fired" "ex_data ?ex' = ex_data ex"
    using pending by (simp_all add: settle_ex_def)
  have c: "classify ?err =
             (500, ''Timeout waiting for HTTP response on '' @ action (ex_data ex))"
    by (simp add: classify_def InternalServerError_def)
  have wt: "wire ?t x =
             [(200, EnvelopeBody
                 \<lparr>res_action = action (ex_data ex),
                  res_correlation_id = correlation_id (ex_data ex),
                  res_request_id = None,
                  res_data = JObj [],
                  res_error = ''Timeout waiting for HTTP response on '' @ action (ex_data ex),
                  res_status = 500\<rparr>)]"
    using eq ex'v c by (simp add: written_def)
  have invt: "invariant ?t" using inv ex by (rule invariant_timer_fired)
  have ext: "exchanges ?t x = Some ?ex'" using eq by simp
  have later: "wire s' x = wire ?t x \<and> step acts s' (TimerFires x) = None"
    if rn: "run acts ?t evs' = Some s'" for evs' s'
  proof -
    from run_evolves [OF invt ext rn] obtain ex2 where e2: "exchanges s' x = Some ex2"
      and ev: "evolves ?ex' ex2" by blast
    from ev ex'v have v2: "ex_promise ex2 = Rejected ?err" "ex_timer ex2 = Fired"
      "ex_data ex2 = ex_data ex" by (simp_all add: evolves_def)
    from invt rn have "invariant s'" by (rule invariant_run)
    from this e2 have "wire s' x = written ex2" by (rule invariant_wire)
    with v2 wt c have "wire s' x = wire ?t x" by (simp add: written_def)
    moreover from e2 v2 have "step acts s' (TimerFires x) = None" by (simp add: step_def)
    ultimately show ?thesis by simp
  qed
  have dl: "map_option ex_deadline (exchanges (executeActionHandler h d c s0) c)
               = Some (now s0 + 30000)" for h d c s0
    by (simp add: executeActionHandler_fields)
  from early due w0 wt later dl step_registry_shrinks [of acts s] show ?thesis
    by (simp only: timer_fired_registry) blast
qed

theorem timeout_settles_once_witness:
  "run example_actions initial_state [HttpRequest (Some example_request), Advance 30000]
     = Some example_overdue
   \<and> exchanges example_overdue 0 = Some example_exchange
   \<and> ex_promise example_exchange = Pending
   \<and> ex_deadline example_exchange \<le> now example_overdue
   \<and> step example_actions example_dispatched (TimerFires 0) = None
   \<and> step example_actions example_overdue (TimerFires 0)
       = Some (timer_fired 0 example_overdue)
   \<and> wire (timer_fired 0 example_overdue) 0 =
       [(200, EnvelopeBody
           \<lparr>res_action = ''ping'', res_correlation_id = ''c1'', res_request_id = None,
            res_data = JObj [],
            res_error = ''Timeout waiting for HTTP response on ping'',
            res_status = 500\<rparr>)]
   \<and> pendingResponses (timer_fired 0 example_overdue) ''r1'' = Some 0
   \<and> step example_actions (timer_fired 0 example_overdue) (TimerFires 0) = None"
proof -
  have a: "exchanges example_overdue 0 = Some example_exchange"
    "exchanges example_dispatched 0 = Some example_exchange"
    by (simp_all add: example_overdue_def example_dispatched_def)
  have b: "ex_promise example_exchange = Pending" by (simp add: example_exchange_def)
  have d: "ex_deadline example_exchange \<le> now example_overdue"
    "now example_dispatched < ex_deadline example_exchange"
    "action (ex_data example_exchange) = ''ping''"
    "correlation_id (ex_data example_exchange) = ''c1''"
    "pendingResponses example_overdue ''r1'' = Some 0"
    "run example_actions (timer_fired 0 example_overdue) [] = Some (timer_fired 0 example_overdue)"
    by (simp_all add: example_overdue_def example_dispatched_def example_exchange_def
        example_request_def)
  note over = timeout_settles_once [OF example_overdue_run a(1) b]
  note disp = timeout_settles_once [OF example_dispatched_run a(2) b]
  from disp d(2) have early: "step example_actions example_dispatched (TimerFires 0) = None"
    by blast
  from over d(1) have due: "step example_actions example_overdue (TimerFires 0)
       = Some (timer_fired 0 example_overdue)"
    by blast
  from over have wt: "wire (timer_fired 0 example_overdue) 0 =
             [(200, EnvelopeBody
                 \<lparr>res_action = action (ex_data example_exchange),
                  res_correlation_id = correlation_id (ex_data example_exchange),
                  res_request_id = None,
                  res_data = JObj [],
                  res_error = ''Timeout waiting for HTTP response on ''
                                @ action (ex_data example_exchange),
                  res_status = 500\<rparr>)]"
    by blast
  from over have pr: "pendingResponses (timer_fired 0 example_overdue)
                      = pendingResponses example_overdue"
    by blast
  from over have "\<forall>evs' s'. run example_actions (timer_fired 0 example_overdue) evs' = Some s' \<longrightarrow>
               wire s' 0 = wire (timer_fired 0 example_overdue) 0
               \<and> step example_actions s' (TimerFires 0) = None"
    by blast
  with d(6) have again: "step example_actions (timer_fired 0 example_overdue) (TimerFires 0) = None"
    by blast
  from early due wt pr again example_overdue_run a b d show ?thesis by simp
qed

text \<open>
  Claim C2 as stated says that entries shrink only through successful resolution.
  In the sample configuration the handler of the dispatched exchange rejects: the entry
  under \<open>r1\<close> is removed although its callback was never called and the exchange ends
  with the handler's error.
\<close>

theorem registry_shrinks_on_handler_rejection:
  "run example_actions initial_state [HttpRequest (Some example_request)]
     = Some example_dispatched
   \<and> pendingResponses example_dispatched ''r1'' = Some 0
   \<and> step example_actions example_dispatched (HandlerRejects 0 (Error ''boom''))
       = Some (handler_rejected 0 (Error ''boom'') (handler_finished 0 example_dispatched))
   \<and> pendingResponses
        (handler_rejected 0 (Error ''boom'') (handler_finished 0 example_dispatched)) ''r1''
       = None
   \<and> map_option ex_resolver_calls
        (exchanges
           (handler_rejected 0 (Error ''boom'') (handler_finished 0 example_dispatched)) 0)
       = Some 0
   \<and> map_option ex_promise
        (exchanges
           (handler_rejected 0 (Error ''boom'') (handler_finished 0 example_dispatched)) 0)
       = Some (Rejected (Error ''boom''))"
proof -
  have "pendingResponses example_dispatched ''r1'' = Some 0"
    by (simp add: example_dispatched_def)
  moreover have "step example_actions example_dispatched (HandlerRejects 0 (Error ''boom''))
       = Some (handler_rejected 0 (Error ''boom'') (handler_finished 0 example_dispatched))"
    by (simp add: step_def example_dispatched_def example_exchange_def)
  moreover have "pendingResponses
        (handler_rejected 0 (Error ''boom'') (handler_finished 0 example_dispatched)) ''r1''
       = None"
    by (simp add: handler_rejected_def handler_finished_def reject_def clearTimeout_def
        Let_def example_dispatched_def example_exchange_def example_request_def)
  moreover have "map_option ex_resolver_calls
        (exchanges
           (handler_rejected 0 (Error ''boom'') (handler_finished 0 example_dispatched)) 0)
       = Some 0"
    by (simp add: handler_rejected_def handler_finished_def reject_def settle_def
        write_response_def clearTimeout_def Let_def example_dispatched_def
        example_exchange_def example_request_def)
  moreover have "map_option ex_promise
        (exchanges
           (handler_rejected 0 (Error ''boom'') (handler_finished 0 example_dispatched)) 0)
       = Some (Rejected (Error ''boom''))"
    by (simp add: handler_rejected_def handler_finished_def reject_def settle_def
        write_response_def clearTimeout_def Let_def example_dispatched_def
        example_exchange_def example_request_def)
  ultimately show ?thesis using example_dispatched_run by simp
qed

subsection \<open>Response injector\<close>

text \<open>
  Claim C1. In a reachable state with an entry for \<open>rid\<close> in \<open>pendingResponses\<close>,
  \<open>sendResponse\<close> with an envelope carrying \<open>request_id = rid\<close> calls the stored
  callback, which had not been called before, once, and removes the entry. A second
  \<open>sendResponse\<close> with the same id changes nothing, and neither does, in any state,
  one whose \<open>request_id\<close> is absent or not registered. If the timer of the exchange has
  not fired, the call cancels it and resolves the promise with the injected envelope,
  which is written as the response under status 200; after any further events, a
  rejection of the handler among them, the connection still holds that one response,
  the promise is still resolved with that envelope, and the callback has been called
  once.
\<close>

theorem inject_resolves_once:
  assumes reach: "run acts initial_state evs = Some s"
    and reg: "pendingResponses s rid = Some x"
    and id: "res_request_id m = Some rid"
  shows "\<exists>ex ex'.
           exchanges s x = Some ex \<and> exchanges (sendResponse m s) x = Some ex'
           \<and> ex_resolver_calls ex = 0 \<and> ex_resolver_calls ex' = 1
           \<and> pendingResponses (sendResponse m s) = (pendingResponses s)(rid := None)
           \<and> (\<forall>m'. res_request_id m' = Some rid \<longrightarrow>
                 sendResponse m' (sendResponse m s) = sendResponse m s)
           \<and> (\<forall>m' s0. res_request_id m' = None
                   \<or> (\<exists>r. res_request_id m' = Some r \<and> pendingResponses s0 r = None) \<longrightarrow>
                 sendResponse m' s0 = s0)
           \<and> (ex_timer ex = Armed \<longrightarrow>
                 ex_timer ex' = Cancelled \<and> ex_promise ex' = Resolved m
                 \<and> wire (sendResponse m s) x = [(200, EnvelopeBody m)]
                 \<and> (\<forall>evs' s'. run acts (sendResponse m s) evs' = Some s' \<longrightarrow>
                       wire s' x = [(200, EnvelopeBody m)]
                       \<and> map_option ex_promise (exchanges s' x) = Some (Resolved m)
                       \<and> map_option ex_resolver_calls (exchanges s' x) = Some 1))"
proof -
  let ?s1 = "sendResponse m s"
  from reach have inv: "invariant s" by (rule invariant_reachable)
  from invariant_entry [OF inv reg] obtain ex where ne: "rid \<noteq> []"
    and ex: "exchanges s x = Some ex" and c0: "ex_resolver_calls ex = 0"
    by (auto simp: entry_ok_def split: option.splits)
  let ?ex' = "settle_ex (Resolved m) (clear_ex (call_ex ex))"
  from inv ex have ok: "exchange_ok s x ex" by (rule invariant_exchange)
  from inv ex have w: "wire s x = written ex" by (rule invariant_wire)
  have eq: "?s1 = (put_exchange x ?ex' s)\<lparr>pendingResponses := (pendingResponses s)(rid := None)\<rparr>"
    using id ne reg ex w by (rule sendResponse_put)
  have e1: "exchanges ?s1 x = Some ?ex'" using eq by simp
  have c1: "ex_resolver_calls ?ex' = 1"
    using c0 by (simp add: settle_ex_def clear_ex_def call_ex_def)
  have p1: "pendingResponses ?s1 = (pendingResponses s)(rid := None)" using eq by simp
  have again: "sendResponse m' ?s1 = ?s1" if "res_request_id m' = Some rid" for m'
    by (rule sendResponse_noop) (simp add: that p1)
  have noop: "sendResponse m' s0 = s0"
    if "res_request_id m' = None
        \<or> (\<exists>r. res_request_id m' = Some r \<and> pendingResponses s0 r = None)" for m' s0
    using that by (intro sendResponse_noop) blast
  have inv1: "invariant ?s1" using inv by (rule invariant_sendResponse)
  have armed: "ex_timer ?ex' = Cancelled \<and> ex_promise ?ex' = Resolved m
                 \<and> wire ?s1 x = [(200, EnvelopeBody m)]
                 \<and> (\<forall>evs' s'. run acts ?s1 evs' = Some s' \<longrightarrow>
                       wire s' x = [(200, EnvelopeBody m)]
                       \<and> map_option ex_promise (exchanges s' x) = Some (Resolved m)
                       \<and> map_option ex_resolver_calls (exchanges s' x) = Some 1)"
    if a: "ex_timer ex = Armed"
  proof -
    from ok a have pend: "ex_promise ex = Pending" by (simp add: exchange_ok_def)
    have v: "ex_timer ?ex' = Cancelled" "ex_promise ?ex' = Resolved m"
      using a pend by (simp_all add: settle_ex_def clear_ex_def call_ex_def)
    have w1: "wire ?s1 x = [(200, EnvelopeBody m)]"
      using eq v by (simp add: written_def)
    have later: "wire s' x = [(200, EnvelopeBody m)]
                 \<and> map_option ex_promise (exchanges s' x) = Some (Resolved m)
                 \<and> map_option ex_resolver_calls (exchanges s' x) = Some 1"
      if rn: "run acts ?s1 evs' = Some s'" for evs' s'
    proof -
      from run_evolves [OF inv1 e1 rn] obtain ex2 where e2: "exchanges s' x = Some ex2"
        and ev: "evolves ?ex' ex2" by blast
      from ev v c1 have v2: "ex_promise ex2 = Resolved m" "1 \<le> ex_resolver_calls ex2"
        by (simp_all add: evolves_def)
      from inv1 rn have inv2: "invariant s'" by (rule invariant_run)
      from inv2 e2 have "exchange_ok s' x ex2" by (rule invariant_exchange)
      with v2 have c2: "ex_resolver_calls ex2 = 1" by (simp add: exchange_ok_def)
      from inv2 e2 have "wire s' x = written ex2" by (rule invariant_wire)
      with v2 have "wire s' x = [(200, EnvelopeBody m)]" by (simp add: written_def)
      with e2 v2 c2 show ?thesis by simp
    qed
    from v w1 later show ?thesis by blast
  qed
  from ex e1 c0 c1 p1 again noop armed show ?thesis by blast
qed

theorem inject_resolves_once_witness:
  "run example_actions initial_state [HttpRequest (Some example_request)]
     = Some example_dispatched
   \<and> pendingResponses example_dispatched ''r1'' = Some 0
   \<and> res_request_id example_response = Some ''r1''
   \<and> map_option ex_timer (exchanges example_dispatched 0) = Some Armed
   \<and> map_option ex_resolver_calls (exchanges (sendResponse example_response example_dispatched) 0)
       = Some 1
   \<and> map_option ex_timer (exchanges (sendResponse example_response example_dispatched) 0)
       = Some Cancelled
   \<and> pendingResponses (sendResponse example_response example_dispatched) ''r1'' = None
   \<and> sendResponse example_response (sendResponse example_response example_dispatched)
       = sendResponse example_response example_dispatched
   \<and> wire (sendResponse example_response example_dispatched) 0
       = [(200, EnvelopeBody example_response)]
   \<and> run example_actions (sendResponse example_response example_dispatched)
         [HandlerRejects 0 (Error ''late'')]
       = Some (handler_rejected 0 (Error ''late'')
                 (handler_finished 0 (sendResponse example_response example_dispatched)))
   \<and> wire (handler_rejected 0 (Error ''late'')
             (handler_finished 0 (sendResponse example_response example_dispatched))) 0
       = [(200, EnvelopeBody example_response)]"
proof -
  have a: "pendingResponses example_dispatched ''r1'' = Some 0"
    by (simp add: example_dispatched_def)
  have b: "res_request_id example_response = Some ''r1''"
    by (simp add: example_response_def)
  have c: "exchanges example_dispatched 0 = Some example_exchange"
    "ex_timer example_exchange = Armed"
    by (simp_all add: example_dispatched_def example_exchange_def)
  from inject_resolves_once [OF example_dispatched_run a b] c(1)
  obtain ex' where e1: "exchanges (sendResponse example_response example_dispatched) 0 = Some ex'"
    and c1: "ex_resolver_calls ex' = 1"
    and p1: "pendingResponses (sendResponse example_response example_dispatched)
             = (pendingResponses example_dispatched)(''r1'' := None)"
    and again: "\<forall>m'. res_request_id m' = Some ''r1'' \<longrightarrow>
                 sendResponse m' (sendResponse example_response example_dispatched)
                 = sendResponse example_response example_dispatched"
    and armed: "ex_timer example_exchange = Armed \<longrightarrow>
                 ex_timer ex' = Cancelled \<and> ex_promise ex' = Resolved example_response
                 \<and> wire (sendResponse example_response example_dispatched) 0
                     = [(200, EnvelopeBody example_response)]
                 \<and> (\<forall>evs' s'. run example_actions
                         (sendResponse example_response example_dispatched) evs' = Some s' \<longrightarrow>
                       wire s' 0 = [(200, EnvelopeBody example_response)]
                       \<and> map_option ex_promise (exchanges s' 0) = Some (Resolved example_response)
                       \<and> map_option ex_resolver_calls (exchanges s' 0) = Some 1)"
    by auto
  from armed c(2) have t1: "ex_timer ex' = Cancelled"
    and w1: "wire (sendResponse example_response example_dispatched) 0
             = [(200, EnvelopeBody example_response)]"
    and later: "\<And>evs' s'. run example_actions
                   (sendResponse example_response example_dispatched) evs' = Some s' \<Longrightarrow>
                 wire s' 0 = [(200, EnvelopeBody example_response)]"
    by blast+
  from again b have twice: "sendResponse example_response
                              (sendResponse example_response example_dispatched)
                            = sendResponse example_response example_dispatched"
    by blast
  from p1 have gone: "pendingResponses (sendResponse example_response example_dispatched) ''r1''
                      = None"
    by simp
  have rn: "run example_actions (sendResponse example_response example_dispatched)
         [HandlerRejects 0 (Error ''late'')]
       = Some (handler_rejected 0 (Error ''late'')
                 (handler_finished 0 (sendResponse example_response example_dispatched)))"
    by (simp add: step_def sendResponse_def resolver_def resolve_def settle_def
        clearTimeout_def count_call_def write_response_def example_response_def
        example_dispatched_def example_exchange_def)
  from later [OF rn] example_dispatched_run a b c e1 c1 t1 w1 twice gone rn show ?thesis
    by (simp del: run.simps)
qed

subsection \<open>Round trip\<close>




end
